theory Spec2Isabelle
  imports Main
begin

section \<open>Python values, dictionaries and strings\<close>

text \<open>
  The scripts pass IOCs around as dictionaries decoded from JSON. A dictionary is an
  association list in insertion order (the CSV writers read the key order); a subscript
  or an iteration on a value of the wrong type raises, and the model returns the error.
  \<open>JQuot a b\<close> stands for the float that the true division \<open>a / b\<close> of two integers
  gives; no statement below computes with it.
\<close>

datatype json =
    JNull
  | JBool bool
  | JNum int
  | JQuot int int
  | JStr string
  | JList "json list"
  | JDict "(string \<times> json) list"

type_synonym pydict = "(string \<times> json) list"

datatype error = KeyError string | TypeError | ValueError | AttributeError | IndexError

text \<open>\<open>d[k]\<close> on a dictionary.\<close>

definition getitem :: "pydict \<Rightarrow> string \<Rightarrow> error + json" where
  "getitem d k = (case map_of d k of None \<Rightarrow> Inl (KeyError k) | Some v \<Rightarrow> Inr v)"

text \<open>\<open>d[k] = v\<close>: an existing key keeps its position, a new key goes last.\<close>

fun setitem :: "pydict \<Rightarrow> string \<Rightarrow> json \<Rightarrow> pydict" where
  "setitem [] k v = [(k, v)]"
| "setitem ((k', v') # d) k v =
     (if k' = k then (k, v) # d else (k', v') # setitem d k v)"

text \<open>\<open>x[k]\<close> with a string key on any value: only a dictionary accepts it.\<close>

definition subscript :: "json \<Rightarrow> string \<Rightarrow> error + json" where
  "subscript x k = (case x of JDict d \<Rightarrow> getitem d k | _ \<Rightarrow> Inl TypeError)"

text \<open>\<open>for x in v\<close>: a list gives its elements, a string its characters, a dictionary
  its keys; anything else is not iterable.\<close>

definition iter :: "json \<Rightarrow> error + json list" where
  "iter v =
     (case v of
        JList xs \<Rightarrow> Inr xs
      | JStr s \<Rightarrow> Inr (map (\<lambda>c. JStr [c]) s)
      | JDict d \<Rightarrow> Inr (map (\<lambda>kv. JStr (fst kv)) d)
      | _ \<Rightarrow> Inl TypeError)"

text \<open>\<open>sep.join(xs)\<close> on strings.\<close>

fun str_join :: "string \<Rightarrow> string list \<Rightarrow> string" where
  "str_join sep [] = []"
| "str_join sep [x] = x"
| "str_join sep (x # y # ys) = x @ sep @ str_join sep (y # ys)"

text \<open>\<open>sep.join\<close> raises TypeError on the first element that is not a string.\<close>

fun strs :: "json list \<Rightarrow> error + string list" where
  "strs [] = Inr []"
| "strs (JStr s # xs) = (case strs xs of Inl e \<Rightarrow> Inl e | Inr ss \<Rightarrow> Inr (s # ss))"
| "strs (_ # xs) = Inl TypeError"

definition py_join :: "string \<Rightarrow> json list \<Rightarrow> error + string" where
  "py_join sep xs = (case strs xs of Inl e \<Rightarrow> Inl e | Inr ss \<Rightarrow> Inr (str_join sep ss))"

text \<open>\<open>s.split(c)\<close> for a one-character separator: the pieces between the separators,
  \<open>['']\<close> for the empty string.\<close>

fun split_char :: "char \<Rightarrow> string \<Rightarrow> string list" where
  "split_char c [] = [[]]"
| "split_char c (x # xs) =
     (if x = c then [] # split_char c xs
      else (case split_char c xs of [] \<Rightarrow> [[x]] | w # ws \<Rightarrow> (x # w) # ws))"

section \<open>MISP: filter_results\<close>

definition OUTPUT_FIELDS :: "string list" where
  "OUTPUT_FIELDS = [''value'', ''type'', ''timestamp'', ''Tag'', ''Event'']"

definition VETTED_TAG :: string where
  "VETTED_TAG = ''rhisac: vetted''"

text \<open>\<open>[x['name'] for x in v if x['name'] != VETTED_TAG]\<close>: the first tag without a
  name raises; a name of another type than string is kept (it differs from the marker).\<close>

fun tag_names :: "json list \<Rightarrow> error + json list" where
  "tag_names [] = Inr []"
| "tag_names (x # xs) =
     (case subscript x ''name'' of
        Inl e \<Rightarrow> Inl e
      | Inr n \<Rightarrow>
          (case tag_names xs of
             Inl e \<Rightarrow> Inl e
           | Inr ns \<Rightarrow> Inr (if n \<noteq> JStr VETTED_TAG then n # ns else ns)))"

text \<open>The inner loop \<open>for k, v in ioc.items()\<close>, with \<open>keep\<close> passed along.\<close>

fun filter_items :: "pydict \<Rightarrow> pydict \<Rightarrow> error + pydict" where
  "filter_items keep [] = Inr keep"
| "filter_items keep ((k, v) # kvs) =
     (if k \<notin> set OUTPUT_FIELDS then filter_items keep kvs
      else if k = ''Tag'' then
        (case iter v of
           Inl e \<Rightarrow> Inl e
         | Inr xs \<Rightarrow>
             (case tag_names xs of
                Inl e \<Rightarrow> Inl e
              | Inr ns \<Rightarrow>
                  (case py_join ''|'' ns of
                     Inl e \<Rightarrow> Inl e
                   | Inr s \<Rightarrow> filter_items (setitem keep ''tags'' (JStr s)) kvs)))
      else if k = ''Event'' then
        (case subscript v ''info'' of
           Inl e \<Rightarrow> Inl e
         | Inr i \<Rightarrow> filter_items (setitem keep ''event'' i) kvs)
      else filter_items (setitem keep k v) kvs)"

text \<open>The outer loop: one \<open>keep\<close> dictionary per IOC, in order; an exception in any of
  them ends the function.\<close>

fun filter_results :: "pydict list \<Rightarrow> error + pydict list" where
  "filter_results [] = Inr []"
| "filter_results (ioc # iocs) =
     (case filter_items [] ioc of
        Inl e \<Rightarrow> Inl e
      | Inr keep \<Rightarrow>
          (case filter_results iocs of
             Inl e \<Rightarrow> Inl e
           | Inr out \<Rightarrow> Inr (keep # out)))"

section \<open>CrowdStrike: upload_iocs\<close>

definition TYPE_MAP :: "(string \<times> string) list" where
  "TYPE_MAP = [(''domain'', ''domain''), (''ip-dst'', ''ipv4''), (''IP6'', ''ipv6''),
     (''md5'', ''md5''), (''sha256'', ''sha256'')]"

text \<open>The dictionary \<open>ioc_dict\<close> submitted for one IOC; two of them are equal, as Python
  dictionaries are, when all their fields are.\<close>

record cs_ioc =
  source :: string
  action :: string
  expiration :: string
  description :: string
  ioc_type :: string
  ioc_value :: json
  severity :: string
  applied_globally :: bool
  platforms :: "string list"

text \<open>What the client returns: the status code and the \<open>resources\<close> of the body, one
  entry per rejected indicator.\<close>

record api_error =
  message :: string
  err_value :: json

record response =
  status_code :: int
  resources :: "api_error list"

text \<open>The lines the function prints, with the values they interpolate.\<close>

datatype msg =
    NoCrowdstrikeType json json
  | AboutToSubmit nat
  | SubmittingBlock nat nat
  | Blank
  | Processing400
  | RemovingDuplicate json
  | UnknownErrorWithValue json
  | ErrorMessage string
  | Uploading nat
  | BlockSubmitted nat
  | UnknownError
  | UnknownResponseCode
  | PrintResponse response
  | Error429

definition debug :: bool where
  "debug = False"

text \<open>\<open>ioc["type"] not in TYPE_MAP\<close> and \<open>TYPE_MAP[ioc["type"]]\<close>: a list or a dictionary
  is unhashable, any other value that is not one of the keys is just absent.\<close>

definition type_lookup :: "json \<Rightarrow> error + string option" where
  "type_lookup t =
     (case t of
        JStr s \<Rightarrow> Inr (map_of TYPE_MAP s)
      | JList _ \<Rightarrow> Inl TypeError
      | JDict _ \<Rightarrow> Inl TypeError
      | _ \<Rightarrow> Inr None)"

definition cs_type :: "pydict \<Rightarrow> error + string option" where
  "cs_type ioc = (case getitem ioc ''type'' of Inl e \<Rightarrow> Inl e | Inr t \<Rightarrow> type_lookup t)"

text \<open>The description: the tags as they are when they are one string, joined with
  \<open>" | "\<close> otherwise.\<close>

definition tags_description :: "json \<Rightarrow> error + string" where
  "tags_description tags =
     (case tags of
        JStr s \<Rightarrow> Inr s
      | _ \<Rightarrow> (case iter tags of Inl e \<Rightarrow> Inl e | Inr xs \<Rightarrow> py_join '' | '' xs))"

definition ioc_dict :: "string \<Rightarrow> pydict \<Rightarrow> string \<Rightarrow> error + cs_ioc" where
  "ioc_dict expiration_timestamp ioc t =
     (case getitem ioc ''value'' of
        Inl e \<Rightarrow> Inl e
      | Inr v \<Rightarrow>
          (case getitem ioc ''tags'' of
             Inl e \<Rightarrow> Inl e
           | Inr tags \<Rightarrow>
               (case tags_description tags of
                  Inl e \<Rightarrow> Inl e
                | Inr d \<Rightarrow>
                    Inr \<lparr>source = ''RH-ISAC Vetted'', action = ''detect'',
                         expiration = expiration_timestamp, description = d,
                         ioc_type = t, ioc_value = v, severity = ''HIGH'',
                         applied_globally = True, platforms = [''windows'']\<rparr>)))"

text \<open>The first loop of upload_iocs. The state is \<open>ioc_count\<close>, \<open>ioc_blocks\<close>,
  \<open>ioc_block\<close> and the lines printed so far.\<close>

type_synonym block_state = "nat \<times> cs_ioc list list \<times> cs_ioc list \<times> msg list"

fun block_loop :: "string \<Rightarrow> pydict list \<Rightarrow> block_state \<Rightarrow> error + block_state" where
  "block_loop ex [] st = Inr st"
| "block_loop ex (ioc # iocs) (ioc_count, ioc_blocks, ioc_block, out) =
     (case cs_type ioc of
        Inl e \<Rightarrow> Inl e
      | Inr None \<Rightarrow>
          (case getitem ioc ''type'' of
             Inl e \<Rightarrow> Inl e
           | Inr t \<Rightarrow>
               (case getitem ioc ''value'' of
                  Inl e \<Rightarrow> Inl e
                | Inr v \<Rightarrow>
                    block_loop ex iocs
                      (ioc_count, ioc_blocks, ioc_block, out @ [NoCrowdstrikeType t v])))
      | Inr (Some t) \<Rightarrow>
          (case ioc_dict ex ioc t of
             Inl e \<Rightarrow> Inl e
           | Inr d \<Rightarrow>
               (let ioc_block = ioc_block @ [d]; ioc_count = ioc_count + 1
                in if length ioc_block \<ge> 200
                   then block_loop ex iocs (ioc_count, ioc_blocks @ [ioc_block], [], out)
                   else block_loop ex iocs (ioc_count, ioc_blocks, ioc_block, out))))"

text \<open>The loop, then \<open>if ioc_block: ioc_blocks.append(ioc_block)\<close>.\<close>

definition make_blocks :: "string \<Rightarrow> pydict list \<Rightarrow> error + (nat \<times> cs_ioc list list \<times> msg list)" where
  "make_blocks ex iocs =
     (case block_loop ex iocs (0, [], [], []) of
        Inl e \<Rightarrow> Inl e
      | Inr (ioc_count, ioc_blocks, ioc_block, out) \<Rightarrow>
          Inr (ioc_count,
               if ioc_block \<noteq> [] then ioc_blocks @ [ioc_block] else ioc_blocks,
               out))"

text \<open>\<open>sub in s\<close> on strings.\<close>

fun contains :: "string \<Rightarrow> string \<Rightarrow> bool" where
  "contains sub [] = (sub = [])"
| "contains sub (c # cs) = (take (length sub) (c # cs) = sub \<or> contains sub cs)"

text \<open>
  \<open>for ioc in block: if ioc.get("value") == duplicate_ioc_value: block.remove(ioc)\<close>.
  The list iterator of Python keeps an index into the list it walks: it reads
  \<open>block[i]\<close> while \<open>i < len(block)\<close>, whatever the body did to the list, and
  \<open>block.remove(ioc)\<close> deletes the first element equal to \<open>ioc\<close>.
\<close>

function remove_duplicate :: "json \<Rightarrow> cs_ioc list \<Rightarrow> nat \<Rightarrow> cs_ioc list" where
  "remove_duplicate duplicate_ioc_value block i =
     (if i < length block then
        (let ioc = block ! i
         in if ioc_value ioc = duplicate_ioc_value
            then remove_duplicate duplicate_ioc_value (remove1 ioc block) (i + 1)
            else remove_duplicate duplicate_ioc_value block (i + 1))
      else block)"
  by pat_completeness auto
termination
proof (relation "measure (\<lambda>(d, block, i). length block - i)")
  show "wf (measure (\<lambda>(d, block, i). length block - i))" by simp
next
  fix d :: json and block :: "cs_ioc list" and i :: nat and x :: cs_ioc
  assume "i < length block" and x: "x = block ! i"
  then have "x \<in> set block" by simp
  then have "length (remove1 x block) = length block - 1"
    by (simp add: length_remove1)
  with \<open>i < length block\<close>
  show "((d, remove1 x block, i + 1), (d, block, i)) \<in> measure (\<lambda>(d, block, i). length block - i)"
    by simp
next
  fix d :: json and block :: "cs_ioc list" and i :: nat and x :: cs_ioc
  assume "i < length block"
  then show "((d, block, i + 1), (d, block, i)) \<in> measure (\<lambda>(d, block, i). length block - i)"
    by simp
qed

text \<open>\<open>for error in errors\<close>, with the block and the printed lines passed along.\<close>

fun process_errors :: "api_error list \<Rightarrow> cs_ioc list \<times> msg list \<Rightarrow> cs_ioc list \<times> msg list" where
  "process_errors [] st = st"
| "process_errors (err # errors) (block, out) =
     (if contains ''Warning: Duplicate type'' (message err) then
        process_errors errors
          (remove_duplicate (err_value err) block 0,
           out @ [RemovingDuplicate (err_value err)])
      else
        process_errors errors
          (block, out @ [UnknownErrorWithValue (err_value err), ErrorMessage (message err)]))"

text \<open>
  The second loop, \<open>for i, block in enumerate(ioc_blocks)\<close>. The client is a function
  from the number of requests made before and the indicators of the body to the
  response; the state is the list of the bodies sent so far and the printed lines.
\<close>

type_synonym falcon = "nat \<Rightarrow> cs_ioc list \<Rightarrow> response"

type_synonym submit_state = "cs_ioc list list \<times> msg list"

fun submit_block :: "falcon \<Rightarrow> nat \<Rightarrow> nat \<Rightarrow> cs_ioc list \<Rightarrow> submit_state \<Rightarrow> submit_state" where
  "submit_block falcon n i block (sent, out) =
     (let out = out @ [SubmittingBlock (i + 1) n];
          response = falcon (length sent) block;
          sent = sent @ [block];
          out = out @ [Blank];
          out = (if debug then out @ [PrintResponse response, Blank] else out)
      in if status_code response = 400 then
           (let out = out @ [Processing400];
                (block, out) = process_errors (resources response) (block, out);
                out = out @ [Uploading (length block)];
                new_response = falcon (length sent) block;
                sent = sent @ [block]
            in if status_code response \<in> {200, 201} then (sent, out @ [BlockSubmitted i])
               else if debug then (sent, out @ [PrintResponse new_response])
               else (sent, out @ [UnknownError, PrintResponse new_response]))
         else if status_code response = 429 then (sent, out @ [Error429])
         else if status_code response \<in> {200, 201} then (sent, out @ [BlockSubmitted i])
         else (sent, out @ [UnknownResponseCode, PrintResponse response]))"

fun submit_blocks :: "falcon \<Rightarrow> nat \<Rightarrow> nat \<Rightarrow> cs_ioc list list \<Rightarrow> submit_state \<Rightarrow> submit_state" where
  "submit_blocks falcon n i [] st = st"
| "submit_blocks falcon n i (block # blocks) st =
     submit_blocks falcon n (i + 1) blocks (submit_block falcon n i block st)"

text \<open>upload_iocs: the bodies sent to the client, in order, and the printed lines. The
  expiration timestamp is computed from the clock and is a parameter here.\<close>

definition upload_iocs :: "string \<Rightarrow> falcon \<Rightarrow> pydict list \<Rightarrow> error + submit_state" where
  "upload_iocs ex falcon iocs =
     (case make_blocks ex iocs of
        Inl e \<Rightarrow> Inl e
      | Inr (ioc_count, ioc_blocks, out) \<Rightarrow>
          Inr (submit_blocks falcon (length ioc_blocks) 0 ioc_blocks
                 ([], out @ [AboutToSubmit ioc_count])))"

text \<open>
  The sequences that the statements about the first loop speak of: the encoded entries
  of the IOCs whose type has an entry in \<open>TYPE_MAP\<close>, in input order, and the lines
  printed for the IOCs whose type has none.
\<close>

definition encoded_iocs :: "string \<Rightarrow> pydict list \<Rightarrow> cs_ioc list" where
  "encoded_iocs ex iocs =
     concat (map (\<lambda>ioc. case cs_type ioc of
                           Inr (Some t) \<Rightarrow> (case ioc_dict ex ioc t of Inr d \<Rightarrow> [d] | Inl _ \<Rightarrow> [])
                         | _ \<Rightarrow> []) iocs)"

definition skip_messages :: "pydict list \<Rightarrow> msg list" where
  "skip_messages iocs =
     concat (map (\<lambda>ioc. case cs_type ioc of
                           Inr None \<Rightarrow>
                             (case (getitem ioc ''type'', getitem ioc ''value'') of
                                (Inr t, Inr v) \<Rightarrow> [NoCrowdstrikeType t v]
                              | _ \<Rightarrow> [])
                         | _ \<Rightarrow> []) iocs)"

text \<open>A filtered IOC as filter_results makes it from a tagged MISP attribute: a type
  that is a string, a value, and tags that are one string or a list of strings.\<close>

definition is_JStr :: "json \<Rightarrow> bool" where
  "is_JStr x = (case x of JStr _ \<Rightarrow> True | _ \<Rightarrow> False)"

definition well_formed_ioc :: "pydict \<Rightarrow> bool" where
  "well_formed_ioc ioc =
     ((case map_of ioc ''type'' of Some t \<Rightarrow> is_JStr t | None \<Rightarrow> False) \<and>
      map_of ioc ''value'' \<noteq> None \<and>
      (case map_of ioc ''tags'' of
         Some (JStr _) \<Rightarrow> True
       | Some (JList xs) \<Rightarrow> list_all is_JStr xs
       | _ \<Rightarrow> False))"

section \<open>Splunk: build_field_values\<close>

text \<open>\<open>s.split(sep, 1)\<close> for a non-empty separator: the string itself when the separator
  does not occur, the parts before and after its first occurrence otherwise.\<close>

fun split1 :: "string \<Rightarrow> string \<Rightarrow> string list" where
  "split1 sep [] = [[]]"
| "split1 sep (c # cs) =
     (if take (length sep) (c # cs) = sep then [[], drop (length sep) (c # cs)]
      else (case split1 sep cs of [] \<Rightarrow> [[c]] | a # bs \<Rightarrow> (c # a) # bs))"

text \<open>\<open>s.lower()\<close> on ASCII letters.\<close>

definition lower_char :: "char \<Rightarrow> char" where
  "lower_char c =
     (case map_of (zip ''ABCDEFGHIJKLMNOPQRSTUVWXYZ'' ''abcdefghijklmnopqrstuvwxyz'') c of
        Some l \<Rightarrow> l
      | None \<Rightarrow> c)"

definition lower :: "string \<Rightarrow> string" where
  "lower s = map lower_char s"

text \<open>\<open>int(s)\<close> on a string, base 10: blanks around, one sign, digits with single
  underscores between them.\<close>

definition is_digit :: "char \<Rightarrow> bool" where
  "is_digit c = ((48::nat) \<le> of_char c \<and> (of_char c :: nat) \<le> 57)"

definition is_space :: "char \<Rightarrow> bool" where
  "is_space c =
     (let n = (of_char c :: nat) in n = 32 \<or> (9 \<le> n \<and> n \<le> 13) \<or> (28 \<le> n \<and> n \<le> 31))"

fun digits :: "int \<Rightarrow> string \<Rightarrow> int option" where
  "digits acc [] = Some acc"
| "digits acc (c # cs) =
     (if is_digit c then digits (10 * acc + (of_char c - 48)) cs
      else if c = CHR ''_'' then
        (case cs of d # _ \<Rightarrow> (if is_digit d then digits acc cs else None) | [] \<Rightarrow> None)
      else None)"

definition unsigned :: "string \<Rightarrow> int option" where
  "unsigned s = (case s of c # _ \<Rightarrow> (if is_digit c then digits 0 s else None) | [] \<Rightarrow> None)"

definition py_int :: "string \<Rightarrow> int option" where
  "py_int s =
     (let t = rev (dropWhile is_space (rev (dropWhile is_space s)))
      in case t of
           c # cs \<Rightarrow>
             (if c = CHR ''-'' then map_option uminus (unsigned cs)
              else if c = CHR ''+'' then unsigned cs
              else unsigned t)
         | [] \<Rightarrow> None)"

text \<open>\<open>int(x)\<close> on a value.\<close>

definition int_of :: "json \<Rightarrow> error + int" where
  "int_of x =
     (case x of
        JStr s \<Rightarrow> (case py_int s of None \<Rightarrow> Inl ValueError | Some n \<Rightarrow> Inr n)
      | JNum n \<Rightarrow> Inr n
      | JBool b \<Rightarrow> Inr (if b then 1 else 0)
      | JQuot a b \<Rightarrow> Inr (if b = 0 then 0 else sgn a * sgn b * (\<bar>a\<bar> div \<bar>b\<bar>))
      | _ \<Rightarrow> Inl TypeError)"

text \<open>\<open>sub in v\<close> on a value: substring of a string, element of a list, key of a
  dictionary.\<close>

definition py_in :: "string \<Rightarrow> json \<Rightarrow> error + bool" where
  "py_in sub v =
     (case v of
        JStr s \<Rightarrow> Inr (contains sub s)
      | JList xs \<Rightarrow> Inr (JStr sub \<in> set xs)
      | JDict d \<Rightarrow> Inr (sub \<in> fst ` set d)
      | _ \<Rightarrow> Inl TypeError)"

subsection \<open>TruSTAR 2.0 to Splunk\<close>

text \<open>The dictionaries that retrieve_last24h_obls builds from the attributes of the
  SDK's observables; build_field_values reads these four keys.\<close>

record indicator =
  ind_value :: string
  indicatorType :: string
  lastSeen :: int
  ind_tags :: json

text \<open>\<open>[t['name'] for t in ind['tags']]\<close>.\<close>

fun names_of :: "string \<Rightarrow> json list \<Rightarrow> error + json list" where
  "names_of k [] = Inr []"
| "names_of k (t # ts) =
     (case subscript t k of
        Inl e \<Rightarrow> Inl e
      | Inr n \<Rightarrow> (case names_of k ts of Inl e \<Rightarrow> Inl e | Inr ns \<Rightarrow> Inr (n # ns)))"

definition joined_tags :: "string \<Rightarrow> json \<Rightarrow> error + string" where
  "joined_tags k tags =
     (case iter tags of
        Inl e \<Rightarrow> Inl e
      | Inr ts \<Rightarrow> (case names_of k ts of Inl e \<Rightarrow> Inl e | Inr ns \<Rightarrow> py_join '' | '' ns))"

text \<open>The dictionary literal \<open>fields\<close>. \<open>int(ind['lastSeen'] / 1000)\<close> divides as floats
  and truncates towards zero; for the magnitudes of millisecond timestamps that is the
  truncated integer quotient.\<close>

definition base_fields :: "indicator \<Rightarrow> error + pydict" where
  "base_fields ind =
     (case joined_tags ''name'' (ind_tags ind) of
        Inl e \<Rightarrow> Inl e
      | Inr tags \<Rightarrow>
          Inr [(''value'', JStr (ind_value ind)),
               (''ioc_type'', JStr (lower (indicatorType ind))),
               (''updated'', JNum (sgn (lastSeen ind) * (\<bar>lastSeen ind\<bar> div 1000))),
               (''source'', JStr ''RH-ISAC Vetted''),
               (''tags'', JStr tags)])"

text \<open>The \<open>try\<close> of the CIDR branch with its bare \<open>except\<close>: a value with a suffix after
  \<open>/\<close> that reads as an integer of at most 32 is kept, anything else gets \<open>/32\<close>.\<close>

definition cidr_value :: "string \<Rightarrow> string" where
  "cidr_value v =
     (case split1 ''/'' v of
        _ # suffix # _ \<Rightarrow>
          (case py_int suffix of
             Some n \<Rightarrow> (if n \<le> 32 then v else v @ ''/32'')
           | None \<Rightarrow> v @ ''/32'')
      | _ \<Rightarrow> v @ ''/32'')"

text \<open>\<open>if '://' in value: _, value = ind['value'].split('://', 1)\<close>.\<close>

definition strip_scheme :: "string \<Rightarrow> error + string" where
  "strip_scheme v =
     (if contains ''://'' v then
        (case split1 ''://'' v of [_, rest] \<Rightarrow> Inr rest | _ \<Rightarrow> Inl ValueError)
      else Inr v)"

text \<open>The URL branch of the TruSTAR script.\<close>

definition reclassify_url :: "string \<Rightarrow> pydict \<Rightarrow> error + pydict" where
  "reclassify_url v flds =
     (case strip_scheme v of
        Inl e \<Rightarrow> Inl e
      | Inr value \<Rightarrow>
          (if contains ''/'' value then
             (case split1 ''/'' value of
                [netloc, remainder] \<Rightarrow>
                  (if remainder \<noteq> [] \<or> contains ''@'' netloc \<or> contains '':'' netloc
                   then Inr (setitem flds ''wildcard'' (JStr (CHR ''*'' # value)))
                   else Inr (setitem (setitem flds ''ioc_type'' (JStr ''domain''))
                               ''value'' (JStr (butlast value))))
              | _ \<Rightarrow> Inl ValueError)
           else if \<not> contains ''@'' value \<and> \<not> contains '':'' value
             then Inr (setitem (setitem flds ''ioc_type'' (JStr ''domain''))
                         ''value'' (JStr value))
           else Inr flds))"

definition build_fields :: "indicator \<Rightarrow> error + pydict" where
  "build_fields ind =
     (case base_fields ind of
        Inl e \<Rightarrow> Inl e
      | Inr flds \<Rightarrow>
          (if indicatorType ind \<in> {''CIDR_BLOCK'', ''IP''}
           then Inr (setitem flds ''cidr'' (JStr (cidr_value (ind_value ind))))
           else if indicatorType ind = ''URL'' then reclassify_url (ind_value ind) flds
           else Inr flds))"

fun build_field_values :: "indicator list \<Rightarrow> error + pydict list" where
  "build_field_values [] = Inr []"
| "build_field_values (ind # inds) =
     (case build_fields ind of
        Inl e \<Rightarrow> Inl e
      | Inr flds \<Rightarrow>
          (case build_field_values inds of
             Inl e \<Rightarrow> Inl e
           | Inr output \<Rightarrow> Inr (flds # output)))"

subsection \<open>MISP to Splunk\<close>

text \<open>Here build_field_values receives the dictionaries that filter_results returns.\<close>

definition base_fields_misp :: "pydict \<Rightarrow> error + pydict" where
  "base_fields_misp ind =
     (case getitem ind ''value'' of
        Inl e \<Rightarrow> Inl e
      | Inr v \<Rightarrow>
          (case getitem ind ''type'' of
             Inl e \<Rightarrow> Inl e
           | Inr (JStr t) \<Rightarrow>
               (case getitem ind ''timestamp'' of
                  Inl e \<Rightarrow> Inl e
                | Inr ts \<Rightarrow>
                    (case int_of ts of
                       Inl e \<Rightarrow> Inl e
                     | Inr n \<Rightarrow>
                         (case getitem ind ''tags'' of
                            Inl e \<Rightarrow> Inl e
                          | Inr tags \<Rightarrow>
                              (case joined_tags ''event'' tags of
                                 Inl e \<Rightarrow> Inl e
                               | Inr joined \<Rightarrow>
                                   Inr [(''value'', v),
                                        (''ioc_type'', JStr (lower t)),
                                        (''updated'', JQuot n 1000),
                                        (''source'', JStr ''RH-ISAC Vetted''),
                                        (''tags'', JStr joined)]))))
           | Inr _ \<Rightarrow> Inl AttributeError))"

text \<open>The URL branch of the MISP script: the value may be any JSON value here, and the
  branch for a value without \<open>/\<close> is not there.\<close>

definition strip_scheme_misp :: "json \<Rightarrow> error + json" where
  "strip_scheme_misp v =
     (case py_in ''://'' v of
        Inl e \<Rightarrow> Inl e
      | Inr False \<Rightarrow> Inr v
      | Inr True \<Rightarrow>
          (case v of
             JStr s \<Rightarrow> (case split1 ''://'' s of [_, rest] \<Rightarrow> Inr (JStr rest) | _ \<Rightarrow> Inl ValueError)
           | _ \<Rightarrow> Inl AttributeError))"

definition reclassify_url_misp :: "json \<Rightarrow> pydict \<Rightarrow> error + pydict" where
  "reclassify_url_misp v flds =
     (case strip_scheme_misp v of
        Inl e \<Rightarrow> Inl e
      | Inr value \<Rightarrow>
          (case py_in ''/'' value of
             Inl e \<Rightarrow> Inl e
           | Inr False \<Rightarrow> Inr flds
           | Inr True \<Rightarrow>
               (case value of
                  JStr s \<Rightarrow>
                    (case split1 ''/'' s of
                       [netloc, remainder] \<Rightarrow>
                         (if remainder \<noteq> [] \<or> contains ''@'' netloc \<or> contains '':'' netloc
                          then Inr (setitem flds ''wildcard'' (JStr (CHR ''*'' # s)))
                          else Inr (setitem (setitem flds ''ioc_type'' (JStr ''domain''))
                                      ''value'' (JStr (butlast s))))
                     | _ \<Rightarrow> Inl ValueError)
                | _ \<Rightarrow> Inl AttributeError)))"

definition ACCEPTED_TYPES :: "string list" where
  "ACCEPTED_TYPES = [''ip-dst'', ''email-src'', ''md5'', ''sha256'', ''sha1'', ''domain'', ''url'']"

datatype splunk_msg = ErrorParsingType json

text \<open>One turn of the loop: the fields to append, or the line printed before
  \<open>continue\<close>.\<close>

definition build_fields_misp :: "pydict \<Rightarrow> error + (pydict + splunk_msg)" where
  "build_fields_misp ind =
     (case base_fields_misp ind of
        Inl e \<Rightarrow> Inl e
      | Inr fields0 \<Rightarrow>
          (case getitem ind ''type'' of
             Inl e \<Rightarrow> Inl e
           | Inr t \<Rightarrow>
               (case (if t = JStr ''url''
                      then (case getitem ind ''value'' of
                              Inl e \<Rightarrow> Inl e
                            | Inr v \<Rightarrow> reclassify_url_misp v fields0)
                      else Inr fields0) of
                  Inl e \<Rightarrow> Inl e
                | Inr flds \<Rightarrow>
                    (if t \<notin> JStr ` set ACCEPTED_TYPES then Inr (Inr (ErrorParsingType t))
                     else Inr (Inl flds)))))"

fun build_field_values_misp :: "pydict list \<Rightarrow> error + (pydict list \<times> splunk_msg list)" where
  "build_field_values_misp [] = Inr ([], [])"
| "build_field_values_misp (ind # inds) =
     (case build_fields_misp ind of
        Inl e \<Rightarrow> Inl e
      | Inr r \<Rightarrow>
          (case build_field_values_misp inds of
             Inl e \<Rightarrow> Inl e
           | Inr (output, printed) \<Rightarrow>
               (case r of
                  Inl flds \<Rightarrow> Inr (flds # output, printed)
                | Inr m \<Rightarrow> Inr (output, m # printed))))"

text \<open>The lines the MISP script prints for a list: one for each IOC whose type is not
  one of the accepted ones.\<close>

definition accepted :: "pydict \<Rightarrow> bool" where
  "accepted ind = (case map_of ind ''type'' of Some t \<Rightarrow> t \<in> JStr ` set ACCEPTED_TYPES | None \<Rightarrow> False)"

definition skip_lines :: "pydict list \<Rightarrow> splunk_msg list" where
  "skip_lines inds =
     concat (map (\<lambda>ind. case map_of ind ''type'' of
                           Some t \<Rightarrow> (if t \<in> JStr ` set ACCEPTED_TYPES then [] else [ErrorParsingType t])
                         | None \<Rightarrow> []) inds)"

text \<open>The words of the reclassification rule: the network location is what precedes
  the first \<open>/\<close>, the path is what follows it.\<close>

definition netloc_of :: "string \<Rightarrow> string" where
  "netloc_of s = takeWhile (\<lambda>c. c \<noteq> CHR ''/'') s"

definition path_of :: "string \<Rightarrow> string" where
  "path_of s = tl (dropWhile (\<lambda>c. c \<noteq> CHR ''/'') s)"

definition domain_record :: "pydict \<Rightarrow> string \<Rightarrow> bool" where
  "domain_record out d =
     (map_of out ''ioc_type'' = Some (JStr ''domain'') \<and> map_of out ''value'' = Some (JStr d) \<and>
      map_of out ''wildcard'' = None)"

definition url_record :: "pydict \<Rightarrow> string \<Rightarrow> string option \<Rightarrow> bool" where
  "url_record out v w =
     (map_of out ''ioc_type'' = Some (JStr ''url'') \<and> map_of out ''value'' = Some (JStr v) \<and>
      map_of out ''wildcard'' = map_option JStr w)"

section \<open>The CSV writers\<close>

text \<open>What Python takes for true in \<open>if x\<close>.\<close>

definition truthy :: "json \<Rightarrow> bool" where
  "truthy x =
     (case x of
        JNull \<Rightarrow> False
      | JBool b \<Rightarrow> b
      | JNum n \<Rightarrow> n \<noteq> 0
      | JQuot a b \<Rightarrow> a \<noteq> 0
      | JStr s \<Rightarrow> s \<noteq> []
      | JList xs \<Rightarrow> xs \<noteq> []
      | JDict d \<Rightarrow> d \<noteq> [])"

text \<open>\<open>x[0]\<close>.\<close>

definition first_item :: "json \<Rightarrow> error + json" where
  "first_item x =
     (case x of
        JList xs \<Rightarrow> (case xs of [] \<Rightarrow> Inl IndexError | y # _ \<Rightarrow> Inr y)
      | JStr s \<Rightarrow> (case s of [] \<Rightarrow> Inl IndexError | c # _ \<Rightarrow> Inr (JStr [c]))
      | JDict d \<Rightarrow> Inl (KeyError ''0'')
      | _ \<Rightarrow> Inl TypeError)"

definition is_dict :: "json \<Rightarrow> bool" where
  "is_dict x = (case x of JDict _ \<Rightarrow> True | _ \<Rightarrow> False)"

text \<open>\<open>[ind[rh] for rh in header if rh != 'tags']\<close>, the keys already filtered.\<close>

fun getitems :: "pydict \<Rightarrow> string list \<Rightarrow> error + json list" where
  "getitems ind [] = Inr []"
| "getitems ind (rh # rhs) =
     (case getitem ind rh of
        Inl e \<Rightarrow> Inl e
      | Inr v \<Rightarrow> (case getitems ind rhs of Inl e \<Rightarrow> Inl e | Inr vs \<Rightarrow> Inr (v # vs)))"

text \<open>\<open>header = list(indicators[0].keys())\<close>, then the tags column (if any) moved to
  the end.\<close>

definition move_tags_last :: "string list \<Rightarrow> string list" where
  "move_tags_last header =
     (if ''tags'' \<in> set header then remove1 ''tags'' header @ [''tags''] else header)"

text \<open>
  The tags of one record, as both TruSTAR writers read them: when the tags are there and
  their first element is a dictionary, the \<open>name\<close> of each; otherwise the elements
  themselves (none when the key is absent).
\<close>

definition flatten_tags :: "pydict \<Rightarrow> error + json list" where
  "flatten_tags ind =
     (case map_of ind ''tags'' of
        None \<Rightarrow> Inr []
      | Some v \<Rightarrow>
          (if truthy v then
             (case first_item v of
                Inl e \<Rightarrow> Inl e
              | Inr x \<Rightarrow>
                  (if is_dict x
                   then (case iter v of Inl e \<Rightarrow> Inl e | Inr ts \<Rightarrow> names_of ''name'' ts)
                   else iter v))
           else iter v))"

text \<open>The row of one record in ind_dict_to_csv (TruSTAR 1.3).\<close>

definition ind_row :: "bool \<Rightarrow> string list \<Rightarrow> pydict \<Rightarrow> error + json list" where
  "ind_row split_tags header ind =
     (case getitems ind [rh \<leftarrow> header. rh \<noteq> ''tags''] of
        Inl e \<Rightarrow> Inl e
      | Inr row \<Rightarrow>
          (case flatten_tags ind of
             Inl e \<Rightarrow> Inl e
           | Inr tags \<Rightarrow>
               (if split_tags then Inr (row @ tags)
                else (case py_join ''|'' tags of
                        Inl e \<Rightarrow> Inl e
                      | Inr s \<Rightarrow> Inr (row @ [JStr s])))))"

text \<open>The row of one record in obl_dict_to_csv (TruSTAR 2.0): the tags cell is there
  only when the record has tags.\<close>

definition obl_row :: "string list \<Rightarrow> pydict \<Rightarrow> error + json list" where
  "obl_row header observable =
     (case getitems observable [rh \<leftarrow> header. rh \<noteq> ''tags''] of
        Inl e \<Rightarrow> Inl e
      | Inr row \<Rightarrow>
          (if (case map_of observable ''tags'' of None \<Rightarrow> False | Some v \<Rightarrow> truthy v) then
             (case flatten_tags observable of
                Inl e \<Rightarrow> Inl e
              | Inr tags \<Rightarrow>
                  (case py_join ''|'' tags of
                     Inl e \<Rightarrow> Inl e
                   | Inr s \<Rightarrow> Inr (row @ [JStr s])))
           else Inr row))"



datatype csv_msg = ErrorWriting pydict error | Wrote string | WroteCount nat string

text \<open>The loop over the records with its \<open>try\<close>: a record whose row cannot be built
  gets a printed line and no row.\<close>

fun write_rows :: "(pydict \<Rightarrow> error + json list) \<Rightarrow> pydict list \<Rightarrow> json list list \<times> csv_msg list" where
  "write_rows mk [] = ([], [])"
| "write_rows mk (ind # inds) =
     (case write_rows mk inds of
        (rows, printed) \<Rightarrow>
          (case mk ind of
             Inl exc \<Rightarrow> (rows, ErrorWriting ind exc # printed)
           | Inr row \<Rightarrow> (row # rows, printed)))"

text \<open>The three writers: the rows written to the file, header first, and the printed
  lines. An empty list raises at \<open>indicators[0]\<close>.\<close>

definition ind_dict_to_csv :: "string \<Rightarrow> bool \<Rightarrow> pydict list \<Rightarrow> error + (json list list \<times> csv_msg list)" where
  "ind_dict_to_csv filename split_tags indicators =
     (case indicators of
        [] \<Rightarrow> Inl IndexError
      | first # _ \<Rightarrow>
          (let header = move_tags_last (map fst first);
               (rows, printed) = write_rows (ind_row split_tags header) indicators
           in Inr (map JStr header # rows, printed @ [Wrote filename])))"

definition obl_dict_to_csv :: "string \<Rightarrow> pydict list \<Rightarrow> error + (json list list \<times> csv_msg list)" where
  "obl_dict_to_csv filename observables =
     (case observables of
        [] \<Rightarrow> Inl IndexError
      | first # _ \<Rightarrow>
          (let header = move_tags_last (map fst first);
               (rows, printed) = write_rows (obl_row header) observables
           in Inr (map JStr header # rows,
                   printed @ [WroteCount (length observables) filename])))"


section \<open>TruSTAR 1.3: retrieve_iocs and the command line\<close>

text \<open>An indicator of a result page, as far as the loop reads it, and the calls made
  to the API, with what a page query returned.\<close>

record ts_item =
  item_value :: string
  last_seen :: int

datatype api_call =
    Ping
  | GetUserEnclaves
  | SearchPage int int "ts_item list"
  | GetMetadata "ts_item list"

datatype ts_msg =
    BothTrue
  | FailedToAccess
  | RetrievingFromEnclaves
  | EnclaveLine string string
  | NoAccessToEnclave string
  | RetrievingBetween int int
  | Retrieved nat
  | AbortingOutOfRange ts_item
  | EmptyLine
  | NoIOCsMatched
  | InvalidLastDays
  | InvalidArgument string
  | CsvLine csv_msg
  | WroteJson string

text \<open>
  What the run depends on besides its arguments. Times are milliseconds since the epoch.
  \<open>search n from_time to_time\<close> is the list \<open>page.items\<close> that the \<open>n\<close>-th page
  query returns for these bounds; \<open>metadata\<close> is get_indicators_metadata followed by
  \<open>to_dict\<close>; \<open>strptime\<close> is the library function of that name.
\<close>

record ts_env =
  ping_ok :: bool
  enclave_ids :: "string list"
  user_enclaves :: "(string \<times> string) list"
  search :: "nat \<Rightarrow> int \<Rightarrow> int \<Rightarrow> ts_item list"
  metadata :: "ts_item list \<Rightarrow> pydict list"
  now_from :: int
  now_to :: int
  utcnow :: int
  strptime :: "string \<Rightarrow> string \<Rightarrow> int option"
  default_csv :: string
  default_json :: string

text \<open>
  The loop \<open>while True\<close> of retrieve_iocs. Nothing in it bounds the number of turns (the
  source may answer every query with a page that does not lower the cursor), so the
  function is partial: \<open>None\<close> is a loop that never ends. The arguments after the
  bounds are the number of page queries made, \<open>pg_to\<close>, \<open>all_metadata\<close>, the calls made
  and the lines printed.
\<close>

partial_function (option) page_loop ::
  "(nat \<Rightarrow> int \<Rightarrow> int \<Rightarrow> ts_item list) \<Rightarrow> (ts_item list \<Rightarrow> pydict list) \<Rightarrow> int \<Rightarrow>
   nat \<Rightarrow> int \<Rightarrow> pydict list \<Rightarrow> api_call list \<Rightarrow> ts_msg list \<Rightarrow>
   (pydict list \<times> api_call list \<times> ts_msg list) option" where
  "page_loop srch meta from_time n pg_to all_metadata calls printed =
     (let items = srch n from_time pg_to;
          calls = calls @ [SearchPage from_time pg_to items]
      in if items = [] then Some (all_metadata, calls, printed)
         else
           (let all_metadata = all_metadata @ meta items;
                calls = calls @ [GetMetadata items];
                printed = printed @ [Retrieved (length all_metadata)];
                earliest_lastseen = last_seen (last items);
                printed = (if earliest_lastseen > pg_to
                           then printed @ [AbortingOutOfRange (last items)] else printed);
                pg_to = earliest_lastseen - 1
            in if pg_to < from_time then Some (all_metadata, calls, printed)
               else page_loop srch meta from_time (n + 1) pg_to all_metadata calls printed))"

text \<open>The pages that the queries of a list of calls returned, in order.\<close>

fun page_of :: "api_call \<Rightarrow> ts_item list list" where
  "page_of (SearchPage f t items) = [items]"
| "page_of _ = []"

definition pages_of :: "api_call list \<Rightarrow> ts_item list list" where
  "pages_of calls = concat (map page_of calls)"

text \<open>The lines for the enclaves: the loop stops at the first enclave the user has no
  access to.\<close>

fun enclave_lines :: "(string \<times> string) list \<Rightarrow> string list \<Rightarrow> ts_msg list" where
  "enclave_lines usr_encs [] = []"
| "enclave_lines usr_encs (encid # encs) =
     (case map_of usr_encs encid of
        None \<Rightarrow> [NoAccessToEnclave encid]
      | Some name \<Rightarrow> EnclaveLine encid name # enclave_lines usr_encs encs)"

text \<open>The four shapes of the output.\<close>

fun shape :: "(pydict \<Rightarrow> error + pydict) \<Rightarrow> pydict list \<Rightarrow> error + pydict list" where
  "shape f [] = Inr []"
| "shape f (ind # inds) =
     (case f ind of
        Inl e \<Rightarrow> Inl e
      | Inr d \<Rightarrow> (case shape f inds of Inl e \<Rightarrow> Inl e | Inr ds \<Rightarrow> Inr (d # ds)))"

definition only_vt_fields :: "pydict \<Rightarrow> error + pydict" where
  "only_vt_fields ind =
     (case getitem ind ''value'' of
        Inl e \<Rightarrow> Inl e
      | Inr v \<Rightarrow>
          (case getitem ind ''indicatorType'' of
             Inl e \<Rightarrow> Inl e
           | Inr t \<Rightarrow> Inr [(''value'', v), (''indicatorType'', t)]))"

definition only_vals_fields :: "pydict \<Rightarrow> error + pydict" where
  "only_vals_fields ind =
     (case getitem ind ''value'' of Inl e \<Rightarrow> Inl e | Inr v \<Rightarrow> Inr [(''value'', v)])"

definition common_fields :: "pydict \<Rightarrow> error + pydict" where
  "common_fields ind =
     (case getitem ind ''value'' of
        Inl e \<Rightarrow> Inl e
      | Inr v \<Rightarrow>
          (case getitem ind ''indicatorType'' of
             Inl e \<Rightarrow> Inl e
           | Inr t \<Rightarrow>
               (case getitem ind ''tags'' of
                  Inl e \<Rightarrow> Inl e
                | Inr tags \<Rightarrow>
                    (case iter tags of
                       Inl e \<Rightarrow> Inl e
                     | Inr ts \<Rightarrow>
                         (case names_of ''name'' ts of
                            Inl e \<Rightarrow> Inl e
                          | Inr ns \<Rightarrow>
                              (case getitem ind ''firstSeen'' of
                                 Inl e \<Rightarrow> Inl e
                               | Inr fs \<Rightarrow>
                                   (case getitem ind ''lastSeen'' of
                                      Inl e \<Rightarrow> Inl e
                                    | Inr ls \<Rightarrow>
                                        Inr [(''value'', v), (''indicatorType'', t),
                                             (''tags'', JList ns), (''firstSeen'', fs),
                                             (''lastSeen'', ls)])))))))"

text \<open>
  retrieve_iocs. The result is \<open>None\<close> when the loop never ends; otherwise the calls made
  and the lines printed, with the returned list or the exception that ended the
  function.
\<close>

definition retrieve_iocs ::
  "ts_env \<Rightarrow> int option \<Rightarrow> int option \<Rightarrow> bool \<Rightarrow> bool \<Rightarrow> string list \<Rightarrow> bool \<Rightarrow> bool \<Rightarrow>
   ((error + pydict list) \<times> api_call list \<times> ts_msg list) option" where
  "retrieve_iocs env from_time to_time only_vals only_vt enclaves min_calls all_meta =
     (if only_vals \<and> only_vt then Some (Inr [], [], [BothTrue])
      else if \<not> min_calls \<and> \<not> ping_ok env then Some (Inr [], [Ping], [FailedToAccess])
      else
        (let calls = (if min_calls then [] else [Ping]);
             enclaves = (if enclaves = []
                         then (if enclave_ids env = []
                               then [''59cd8570-5dce-4e5b-b09c-9807530a7086'']
                               else enclave_ids env)
                         else enclaves);
             calls = (if min_calls then calls else calls @ [GetUserEnclaves]);
             printed = (if min_calls then []
                        else RetrievingFromEnclaves
                             # enclave_lines (rev (user_enclaves env)) enclaves);
             from_time = (case from_time of None \<Rightarrow> now_from env - 86400000 | Some t \<Rightarrow> t);
             to_time = (case to_time of None \<Rightarrow> now_to env | Some t \<Rightarrow> t);
             printed = printed @ [RetrievingBetween from_time to_time]
         in case page_loop (search env) (metadata env) from_time 0 to_time [] calls printed of
              None \<Rightarrow> None
            | Some (all_metadata, calls, printed) \<Rightarrow>
                (case (if only_vt then shape only_vt_fields all_metadata
                       else if only_vals then shape only_vals_fields all_metadata
                       else if all_meta then Inr all_metadata
                       else shape common_fields all_metadata) of
                   Inl e \<Rightarrow> Some (Inl e, calls, printed)
                 | Inr out \<Rightarrow> Some (Inr out, calls, printed @ [EmptyLine]))))"

text \<open>The arguments of the command line, as argparse delivers them.\<close>

record args =
  outfile :: "string option"
  all_fields :: bool
  csv :: bool
  enclaves_arg :: string
  from_time_arg :: "string option"
  types_arg :: string
  last_days :: "string option"
  min_calls_arg :: bool
  split_tags_arg :: bool
  to_time_arg :: "string option"
  only_vals_arg :: bool
  only_vt_arg :: bool

text \<open>What one run leaves behind: the lines printed, the API calls made, the files
  written and the exit status of the process (0 at the end of the script and for
  \<open>sys.exit()\<close>, 1 for an exception that nothing catches).\<close>

datatype file_content = CsvFile "json list list" | JsonFile "pydict list"

record outcome =
  printed_lines :: "ts_msg list"
  api_calls :: "api_call list"
  files :: "(string \<times> file_content) list"
  exit_code :: int

text \<open>One of the two time arguments: absent or empty it stays as it is, otherwise it
  is read in one of the two formats, and the run ends when neither fits.\<close>

definition convert_time :: "ts_env \<Rightarrow> string option \<Rightarrow> ts_msg + int option" where
  "convert_time env dt =
     (case dt of
        None \<Rightarrow> Inr None
      | Some s \<Rightarrow>
          (if s = [] then Inr None
           else (case strptime env s ''%Y-%m-%d'' of
                   Some t \<Rightarrow> Inr (Some t)
                 | None \<Rightarrow>
                     (case strptime env s ''%Y-%m-%d_%H:%M:%S'' of
                        Some t \<Rightarrow> Inr (Some t)
                      | None \<Rightarrow> Inl (InvalidArgument s)))))"

text \<open>The bounds of \<open>datetime\<close> and \<open>timedelta\<close>, in milliseconds and days; outside them
  the subtraction raises OverflowError.\<close>

definition MIN_MS :: int where "MIN_MS = - 62135596800000"
definition MAX_MS :: int where "MAX_MS = 253402300799999"
definition MAX_DAYS :: int where "MAX_DAYS = 999999999"

datatype times = Exit ts_msg | Crash | Times "int option" "int option"

definition convert_times :: "ts_env \<Rightarrow> args \<Rightarrow> times" where
  "convert_times env a =
     (case last_days a of
        Some s \<Rightarrow>
          (if s \<noteq> [] then
             (case py_int s of
                None \<Rightarrow> Exit InvalidLastDays
              | Some days \<Rightarrow>
                  (if \<bar>days\<bar> \<le> MAX_DAYS \<and> MIN_MS \<le> utcnow env - days * 86400000 \<and>
                      utcnow env - days * 86400000 \<le> MAX_MS
                   then Times (Some (utcnow env - days * 86400000)) (Some (utcnow env))
                   else Crash))
           else (case convert_time env (from_time_arg a) of
                   Inl m \<Rightarrow> Exit m
                 | Inr f \<Rightarrow>
                     (case convert_time env (to_time_arg a) of
                        Inl m \<Rightarrow> Exit m
                      | Inr t \<Rightarrow> Times f t)))
      | None \<Rightarrow>
          (case convert_time env (from_time_arg a) of
             Inl m \<Rightarrow> Exit m
           | Inr f \<Rightarrow>
               (case convert_time env (to_time_arg a) of
                  Inl m \<Rightarrow> Exit m
                | Inr t \<Rightarrow> Times f t)))"

text \<open>The script run from the command line. \<open>None\<close> is a run that never ends.\<close>

definition main :: "ts_env \<Rightarrow> args \<Rightarrow> outcome option" where
  "main env a =
     (case convert_times env a of
        Exit m \<Rightarrow> Some \<lparr>printed_lines = [m], api_calls = [], files = [], exit_code = 0\<rparr>
      | Crash \<Rightarrow> Some \<lparr>printed_lines = [], api_calls = [], files = [], exit_code = 1\<rparr>
      | Times f t \<Rightarrow>
          (let enc_ids = (if enclaves_arg a \<noteq> [] then split_char CHR '','' (enclaves_arg a) else [])
           in case retrieve_iocs env f t (only_vals_arg a) (only_vt_arg a) enc_ids
                     (min_calls_arg a) (all_fields a) of
                None \<Rightarrow> None
              | Some (Inl e, calls, printed) \<Rightarrow>
                  Some \<lparr>printed_lines = printed, api_calls = calls, files = [], exit_code = 1\<rparr>
              | Some (Inr iocs, calls, printed) \<Rightarrow>
                  (if iocs = [] then
                     Some \<lparr>printed_lines = printed @ [NoIOCsMatched], api_calls = calls,
                           files = [], exit_code = 0\<rparr>
                   else if csv a then
                     (let filename = (case outfile a of
                                        None \<Rightarrow> default_csv env
                                      | Some s \<Rightarrow> if s = [] then default_csv env else s)
                      in case ind_dict_to_csv filename (split_tags_arg a) iocs of
                           Inl e \<Rightarrow>
                             Some \<lparr>printed_lines = printed, api_calls = calls,
                                   files = [(filename, CsvFile [])], exit_code = 1\<rparr>
                         | Inr (rows, lines) \<Rightarrow>
                             Some \<lparr>printed_lines = printed @ map CsvLine lines,
                                   api_calls = calls, files = [(filename, CsvFile rows)],
                                   exit_code = 0\<rparr>)
                   else
                     (let filename = (case outfile a of
                                        None \<Rightarrow> default_json env
                                      | Some s \<Rightarrow> if s = [] then default_json env else s)
                      in Some \<lparr>printed_lines = printed @ [WroteJson filename],
                               api_calls = calls, files = [(filename, JsonFile iocs)],
                               exit_code = 0\<rparr>))))"

text \<open>
  The synthetic source of the pagination property: it holds the records in the order of
  their \<open>last_seen\<close>, latest first, and answers a query with the first \<open>P\<close> of those
  whose \<open>last_seen\<close> lies within the bounds, both included.
\<close>

definition synthetic_search :: "ts_item list \<Rightarrow> nat \<Rightarrow> nat \<Rightarrow> int \<Rightarrow> int \<Rightarrow> ts_item list" where
  "synthetic_search records P n from_time to_time =
     take P [r \<leftarrow> records. from_time \<le> last_seen r \<and> last_seen r \<le> to_time]"

text \<open>
  The cursor pagination in words, as a predicate on the page queries of a run (each with
  its bounds and the page it returned): every query is bounded by \<open>from_time\<close> and the
  current \<open>pg_to\<close> and gets the source's answer to it; an empty page is the last one; after
  a page with records the next \<open>pg_to\<close> is the minimum \<open>last_seen\<close> of the page minus one,
  and the page is the last one when that is below \<open>from_time\<close>.
\<close>

fun query_of :: "api_call \<Rightarrow> (int \<times> int \<times> ts_item list) list" where
  "query_of (SearchPage f t items) = [(f, t, items)]"
| "query_of _ = []"

definition queries_of :: "api_call list \<Rightarrow> (int \<times> int \<times> ts_item list) list" where
  "queries_of calls = concat (map query_of calls)"

fun cursor_chain ::
  "(nat \<Rightarrow> int \<Rightarrow> int \<Rightarrow> ts_item list) \<Rightarrow> int \<Rightarrow> nat \<Rightarrow> int \<Rightarrow> (int \<times> int \<times> ts_item list) list \<Rightarrow> bool" where
  "cursor_chain srch from_time n pg_to [] = False"
| "cursor_chain srch from_time n pg_to ((f, t, items) # qs) =
     (f = from_time \<and> t = pg_to \<and> items = srch n from_time pg_to \<and>
      (if items = [] then qs = []
       else if Min (last_seen ` set items) - 1 < from_time then qs = []
       else cursor_chain srch from_time (n + 1) (Min (last_seen ` set items) - 1) qs))"

section \<open>Properties of the string helpers\<close>

lemma split_char_nonempty: "split_char c s \<noteq> []"
  by (induction s) (auto split: list.splits)

lemma split_char_no_sep: "c \<notin> set s \<Longrightarrow> split_char c s = [s]"
  by (induction s) auto

lemma split_char_append:
  "c \<notin> set a \<Longrightarrow> split_char c (a @ c # b) = a # split_char c b"
  by (induction a) auto

lemma split_char_join:
  "xs \<noteq> [] \<Longrightarrow> \<forall>x \<in> set xs. c \<notin> set x \<Longrightarrow> split_char c (str_join [c] xs) = xs"
proof (induction "[c]" xs rule: str_join.induct)
  case 1
  then show ?case by simp
next
  case (2 x)
  then show ?case by (simp add: split_char_no_sep)
next
  case (3 x y ys)
  then show ?case by (simp add: split_char_append)
qed

section \<open>Properties of filter_results\<close>

lemma setitem_lookup: "map_of (setitem d k v) k' = (if k' = k then Some v else map_of d k')"
  by (induction d k v rule: setitem.induct) auto

lemma filter_items_keeps_tags:
  "filter_items keep kvs = Inr keep' \<Longrightarrow> ''Tag'' \<notin> fst ` set kvs \<Longrightarrow>
   map_of keep' ''tags'' = map_of keep ''tags''"
proof (induction keep kvs rule: filter_items.induct)
  case (1 keep)
  then show ?case by simp
next
  case (2 keep k v kvs)
  then show ?case
    by (auto simp: setitem_lookup OUTPUT_FIELDS_def split: if_splits sum.splits)
qed

lemma filter_items_tags:
  "filter_items keep kvs = Inr keep' \<Longrightarrow> distinct (map fst kvs) \<Longrightarrow>
   map_of kvs ''Tag'' = Some v \<Longrightarrow>
   \<exists>xs ns s. iter v = Inr xs \<and> tag_names xs = Inr ns \<and> py_join ''|'' ns = Inr s \<and>
     map_of keep' ''tags'' = Some (JStr s)"
proof (induction keep kvs rule: filter_items.induct)
  case (1 keep)
  then show ?case by simp
next
  case (2 keep k v' kvs)
  show ?case
  proof (cases "k = ''Tag''")
    case True
    with 2(5,6,7) have notin: "''Tag'' \<notin> fst ` set kvs" and v: "v' = v"
      by auto
    from 2(5) True obtain xs ns s where
      a: "iter v' = Inr xs" "tag_names xs = Inr ns" "py_join ''|'' ns = Inr s"
      and b: "filter_items (setitem keep ''tags'' (JStr s)) kvs = Inr keep'"
      by (auto simp: OUTPUT_FIELDS_def split: sum.splits)
    from filter_items_keeps_tags[OF b notin]
    have "map_of keep' ''tags'' = Some (JStr s)"
      by (simp add: setitem_lookup)
    with a v show ?thesis by blast
  next
    case False
    with 2(7) have m: "map_of kvs ''Tag'' = Some v" by simp
    from 2(6) have d: "distinct (map fst kvs)" by simp
    from False 2(5) consider
        (skip) "k \<notin> set OUTPUT_FIELDS" "filter_items keep kvs = Inr keep'"
      | (event) i where "k \<in> set OUTPUT_FIELDS" "k = ''Event''" "subscript v' ''info'' = Inr i"
          "filter_items (setitem keep ''event'' i) kvs = Inr keep'"
      | (other) "k \<in> set OUTPUT_FIELDS" "k \<noteq> ''Event''"
          "filter_items (setitem keep k v') kvs = Inr keep'"
      by (auto split: if_splits sum.splits)
    then show ?thesis
    proof cases
      case skip
      from 2(1)[OF skip(1) skip(2) d m] show ?thesis .
    next
      case event
      from 2(3)[OF _ False event(2) event(3) event(4) d m] event(1) show ?thesis by simp
    next
      case other
      from 2(4)[OF _ False other(2) other(3) d m] other(1) show ?thesis by simp
    qed
  qed
qed

lemma strs_all_JStr: "strs xs = Inr ss \<Longrightarrow> xs = map JStr ss"
proof (induction xs arbitrary: ss rule: strs.induct)
  case 1
  then show ?case by simp
next
  case (2 s xs)
  then show ?case by (auto split: sum.splits)
qed simp_all

lemma tag_names_kept:
  "tag_names xs = Inr (map JStr ss) \<Longrightarrow>
   \<exists>ns. map (\<lambda>x. subscript x ''name'') xs = map Inr ns \<and>
     ss = [s \<leftarrow> concat (map (\<lambda>n. case n of JStr s \<Rightarrow> [s] | _ \<Rightarrow> []) ns). s \<noteq> VETTED_TAG] \<and>
     (\<forall>n \<in> set ns. \<exists>s. n = JStr s)"
proof (induction xs arbitrary: ss)
  case Nil
  then show ?case by simp
next
  case (Cons x xs)
  from Cons.prems obtain n ns' where
    n: "subscript x ''name'' = Inr n" and ns': "tag_names xs = Inr ns'"
    and eq: "map JStr ss = (if n \<noteq> JStr VETTED_TAG then n # ns' else ns')"
    by (auto split: sum.splits)
  show ?case
  proof (cases "n = JStr VETTED_TAG")
    case True
    with eq ns' have "tag_names xs = Inr (map JStr ss)" by simp
    from Cons.IH[OF this] obtain ns where
      "map (\<lambda>x. subscript x ''name'') xs = map Inr ns"
      "ss = [s \<leftarrow> concat (map (\<lambda>n. case n of JStr s \<Rightarrow> [s] | _ \<Rightarrow> []) ns). s \<noteq> VETTED_TAG]"
      "\<forall>n \<in> set ns. \<exists>s. n = JStr s"
      by blast
    with n True show ?thesis
      by (intro exI[of _ "n # ns"]) simp
  next
    case False
    with eq obtain s ss' where ss: "ss = s # ss'" and ns: "n = JStr s" "ns' = map JStr ss'"
      by (cases ss) auto
    from ns' ns have "tag_names xs = Inr (map JStr ss')" by simp
    from Cons.IH[OF this] obtain ns0 where
      "map (\<lambda>x. subscript x ''name'') xs = map Inr ns0"
      "ss' = [s \<leftarrow> concat (map (\<lambda>n. case n of JStr s \<Rightarrow> [s] | _ \<Rightarrow> []) ns0). s \<noteq> VETTED_TAG]"
      "\<forall>n \<in> set ns0. \<exists>s. n = JStr s"
      by blast
    with n ns ss False show ?thesis
      by (intro exI[of _ "n # ns0"]) simp
  qed
qed

lemma filter_results_nth:
  "filter_results iocs = Inr out \<Longrightarrow>
   length out = length iocs \<and> (\<forall>i < length iocs. filter_items [] (iocs ! i) = Inr (out ! i))"
proof (induction iocs arbitrary: out)
  case Nil
  then show ?case by simp
next
  case (Cons ioc iocs)
  from Cons.prems obtain keep out' where
    k: "filter_items [] ioc = Inr keep" and r: "filter_results iocs = Inr out'"
    and o: "out = keep # out'"
    by (auto split: sum.splits)
  from Cons.IH[OF r] k o show ?case
    by (auto simp: nth_Cons split: nat.splits)
qed

lemma all_JStr: "\<forall>n \<in> set ns. \<exists>s. n = JStr s \<Longrightarrow> \<exists>ss. ns = map JStr ss"
proof (induction ns)
  case Nil
  then show ?case by simp
next
  case (Cons n ns)
  then obtain s ss where "n = JStr s" "ns = map JStr ss" by auto
  then have "n # ns = map JStr (s # ss)" by simp
  then show ?case by (rule exI[of _ "s # ss"])
qed

lemma concat_JStr:
  "concat (map (\<lambda>n. case n of JStr s \<Rightarrow> [s] | _ \<Rightarrow> []) (map JStr ss)) = ss"
  by (induction ss) auto

text \<open>
  C10, as amended. For every MISP attribute that filter_results turns into an output
  record, the \<open>tags\<close> field of the record is the pipe-joined list of the attribute's tag
  names, in order, with every tag named exactly \<open>rhisac: vetted\<close> left out and every
  other name kept. Provided that no tag name contains the separator \<open>|\<close>, the pieces of
  the delivered string are exactly the kept names, and the marker is not among them.
\<close>

theorem filter_results_excludes_vetted_tag:
  assumes "filter_results iocs = Inr out"
    and "i < length iocs"
    and "distinct (map fst (iocs ! i))"
    and "map_of (iocs ! i) ''Tag'' = Some (JList ts)"
  shows "\<exists>ns. map (\<lambda>t. subscript t ''name'') ts = map (\<lambda>n. Inr (JStr n)) ns \<and>
    map_of (out ! i) ''tags'' = Some (JStr (str_join ''|'' [n \<leftarrow> ns. n \<noteq> VETTED_TAG])) \<and>
    ((\<forall>n \<in> set ns. CHR ''|'' \<notin> set n) \<longrightarrow>
       VETTED_TAG \<notin> set (split_char CHR ''|'' (str_join ''|'' [n \<leftarrow> ns. n \<noteq> VETTED_TAG])) \<and>
       ([n \<leftarrow> ns. n \<noteq> VETTED_TAG] \<noteq> [] \<longrightarrow>
          split_char CHR ''|'' (str_join ''|'' [n \<leftarrow> ns. n \<noteq> VETTED_TAG])
          = [n \<leftarrow> ns. n \<noteq> VETTED_TAG]))"
proof -
  from filter_results_nth[OF assms(1)] assms(2)
  have fi: "filter_items [] (iocs ! i) = Inr (out ! i)" by simp
  from filter_items_tags[OF fi assms(3) assms(4)] obtain js s where
    tn: "tag_names ts = Inr js" and pj: "py_join ''|'' js = Inr s"
    and tags: "map_of (out ! i) ''tags'' = Some (JStr s)"
    by (auto simp: iter_def)
  from pj obtain ss where ss: "strs js = Inr ss" and s: "s = str_join ''|'' ss"
    by (auto simp: py_join_def split: sum.splits)
  from strs_all_JStr[OF ss] tn have "tag_names ts = Inr (map JStr ss)" by simp
  from tag_names_kept[OF this] obtain jn where
    sub: "map (\<lambda>x. subscript x ''name'') ts = map Inr jn"
    and kept: "ss = [s \<leftarrow> concat (map (\<lambda>n. case n of JStr s \<Rightarrow> [s] | _ \<Rightarrow> []) jn). s \<noteq> VETTED_TAG]"
    and all: "\<forall>n \<in> set jn. \<exists>s. n = JStr s"
    by blast
  from all_JStr[OF all] obtain ns where ns: "jn = map JStr ns"
    by blast
  let ?kept = "[n \<leftarrow> ns. n \<noteq> VETTED_TAG]"
  have a: "map (\<lambda>t. subscript t ''name'') ts = map (\<lambda>n. Inr (JStr n)) ns"
    using sub ns by simp
  have b: "map_of (out ! i) ''tags'' = Some (JStr (str_join ''|'' ?kept))"
    using tags s kept ns concat_JStr[of ns] by simp
  have c: "(\<forall>n \<in> set ns. CHR ''|'' \<notin> set n) \<longrightarrow>
       VETTED_TAG \<notin> set (split_char CHR ''|'' (str_join ''|'' ?kept)) \<and>
       (?kept \<noteq> [] \<longrightarrow> split_char CHR ''|'' (str_join ''|'' ?kept) = ?kept)"
  proof
    assume nosep: "\<forall>n \<in> set ns. CHR ''|'' \<notin> set n"
    then have k: "\<forall>x \<in> set ?kept. CHR ''|'' \<notin> set x" by simp
    have "VETTED_TAG \<notin> set (split_char CHR ''|'' (str_join ''|'' ?kept))"
    proof (cases "?kept = []")
      case True
      then show ?thesis by (simp add: VETTED_TAG_def)
    next
      case False
      from split_char_join[OF False k] show ?thesis by simp
    qed
    moreover have "?kept \<noteq> [] \<longrightarrow> split_char CHR ''|'' (str_join ''|'' ?kept) = ?kept"
      using split_char_join[OF _ k] by blast
    ultimately show "VETTED_TAG \<notin> set (split_char CHR ''|'' (str_join ''|'' ?kept)) \<and>
       (?kept \<noteq> [] \<longrightarrow> split_char CHR ''|'' (str_join ''|'' ?kept) = ?kept)"
      by blast
  qed
  from a b c show ?thesis
    by (intro exI[of _ ns]) simp
qed

theorem filter_results_excludes_vetted_tag_witness:
  "filter_results
     [[(''value'', JStr ''evil.example''), (''comment'', JStr ''''),
       (''Tag'', JList [JDict [(''name'', JStr ''rhisac: vetted'')],
                        JDict [(''name'', JStr ''tlp:amber'')],
                        JDict [(''name'', JStr ''phishing'')]]),
       (''Event'', JDict [(''info'', JStr ''Campaign'')])]]
   = Inr [[(''value'', JStr ''evil.example''), (''tags'', JStr ''tlp:amber|phishing''),
           (''event'', JStr ''Campaign'')]] \<and>
   str_join ''|'' [n \<leftarrow> [''rhisac: vetted'', ''tlp:amber'', ''phishing'']. n \<noteq> VETTED_TAG]
   = ''tlp:amber|phishing'' \<and>
   VETTED_TAG \<notin> set (split_char CHR ''|'' ''tlp:amber|phishing'') \<and>
   split_char CHR ''|'' ''tlp:amber|phishing'' = [''tlp:amber'', ''phishing'']"
proof -
  let ?ts = "[JDict [(''name'', JStr ''rhisac: vetted'')],
              JDict [(''name'', JStr ''tlp:amber'')],
              JDict [(''name'', JStr ''phishing'')]]"
  let ?ioc = "[(''value'', JStr ''evil.example''), (''comment'', JStr ''''),
       (''Tag'', JList ?ts), (''Event'', JDict [(''info'', JStr ''Campaign'')])]"
  let ?keep = "[(''value'', JStr ''evil.example''), (''tags'', JStr ''tlp:amber|phishing''),
           (''event'', JStr ''Campaign'')]"
  let ?names = "[''rhisac: vetted'', ''tlp:amber'', ''phishing'']"
  have run: "filter_results [?ioc] = Inr [?keep]"
    by (simp add: OUTPUT_FIELDS_def VETTED_TAG_def iter_def subscript_def getitem_def
        py_join_def)
  have h2: "(0::nat) < length [?ioc]" by simp
  have h3: "distinct (map fst ([?ioc] ! 0))" by simp
  have h4: "map_of ([?ioc] ! 0) ''Tag'' = Some (JList ?ts)" by simp
  from filter_results_excludes_vetted_tag[OF run h2 h3 h4] obtain ns where
    a: "map (\<lambda>t. subscript t ''name'') ?ts = map (\<lambda>n. Inr (JStr n)) ns"
    and b: "map_of ([?keep] ! 0) ''tags''
        = Some (JStr (str_join ''|'' [n \<leftarrow> ns. n \<noteq> VETTED_TAG]))"
    and c: "(\<forall>n \<in> set ns. CHR ''|'' \<notin> set n) \<longrightarrow>
       VETTED_TAG \<notin> set (split_char CHR ''|'' (str_join ''|'' [n \<leftarrow> ns. n \<noteq> VETTED_TAG])) \<and>
       ([n \<leftarrow> ns. n \<noteq> VETTED_TAG] \<noteq> [] \<longrightarrow>
          split_char CHR ''|'' (str_join ''|'' [n \<leftarrow> ns. n \<noteq> VETTED_TAG])
          = [n \<leftarrow> ns. n \<noteq> VETTED_TAG])"
    by blast
  have "map (\<lambda>t. subscript t ''name'') ?ts = map (\<lambda>n. Inr (JStr n)) ?names"
    by (simp add: subscript_def getitem_def)
  with a have "map (\<lambda>n. (Inr (JStr n) :: error + json)) ns = map (\<lambda>n. Inr (JStr n)) ?names"
    by simp
  moreover have "inj (\<lambda>n. (Inr (JStr n) :: error + json))" by (simp add: inj_on_def)
  ultimately have ns: "ns = ?names" by (simp only: inj_map_eq_map)
  have kept: "[n \<leftarrow> ?names. n \<noteq> VETTED_TAG] = [''tlp:amber'', ''phishing'']"
    by (simp add: VETTED_TAG_def)
  from b ns have j: "str_join ''|'' [n \<leftarrow> ?names. n \<noteq> VETTED_TAG] = ''tlp:amber|phishing''"
    by simp
  have nosep: "\<forall>n \<in> set ?names. CHR ''|'' \<notin> set n" by simp
  from c ns nosep have
    "VETTED_TAG \<notin> set (split_char CHR ''|'' (str_join ''|'' [n \<leftarrow> ?names. n \<noteq> VETTED_TAG]))"
    "[n \<leftarrow> ?names. n \<noteq> VETTED_TAG] \<noteq> [] \<longrightarrow>
       split_char CHR ''|'' (str_join ''|'' [n \<leftarrow> ?names. n \<noteq> VETTED_TAG])
       = [n \<leftarrow> ?names. n \<noteq> VETTED_TAG]"
    by blast+
  with j kept have "VETTED_TAG \<notin> set (split_char CHR ''|'' ''tlp:amber|phishing'')"
    and "split_char CHR ''|'' ''tlp:amber|phishing'' = [''tlp:amber'', ''phishing'']"
    by simp_all
  with run j show ?thesis by blast
qed

text \<open>
  C10 as stated fails without the side condition: a tag whose name contains the
  separator, \<open>a|rhisac: vetted\<close>, is kept (it is not the marker), and the marker is then
  one of the pieces of the delivered tags string.
\<close>

theorem vetted_marker_as_piece_counterexample:
  "filter_results
     [[(''value'', JStr ''evil.example''),
       (''Tag'', JList [JDict [(''name'', JStr ''rhisac: vetted'')],
                        JDict [(''name'', JStr ''a|rhisac: vetted'')]])]]
   = Inr [[(''value'', JStr ''evil.example''), (''tags'', JStr ''a|rhisac: vetted'')]] \<and>
   split_char CHR ''|'' ''a|rhisac: vetted'' = [''a'', VETTED_TAG]"
  by (simp add: OUTPUT_FIELDS_def VETTED_TAG_def iter_def subscript_def getitem_def
      py_join_def)

section \<open>Properties of upload_iocs: the blocks\<close>

lemma encoded_iocs_Cons:
  "encoded_iocs ex (ioc # iocs) =
     (case cs_type ioc of
        Inr (Some t) \<Rightarrow> (case ioc_dict ex ioc t of Inr d \<Rightarrow> [d] | Inl _ \<Rightarrow> [])
      | _ \<Rightarrow> []) @ encoded_iocs ex iocs"
  by (simp add: encoded_iocs_def)

lemma skip_messages_Cons:
  "skip_messages (ioc # iocs) =
     (case cs_type ioc of
        Inr None \<Rightarrow>
          (case (getitem ioc ''type'', getitem ioc ''value'') of
             (Inr t, Inr v) \<Rightarrow> [NoCrowdstrikeType t v]
           | _ \<Rightarrow> [])
      | _ \<Rightarrow> []) @ skip_messages iocs"
  by (simp add: skip_messages_def)

lemma block_loop_inv:
  "block_loop ex iocs (c, bs, b, out) = Inr (c', bs', b', out') \<Longrightarrow> length b < 200 \<Longrightarrow>
   concat bs' @ b' = concat bs @ b @ encoded_iocs ex iocs \<and>
   out' = out @ skip_messages iocs \<and>
   c' = c + length (encoded_iocs ex iocs) \<and>
   length b' < 200 \<and>
   (\<exists>new. bs' = bs @ new \<and> (\<forall>x \<in> set new. length x = 200)) \<and>
   (\<forall>ioc \<in> set iocs. \<forall>t. cs_type ioc = Inr (Some t) \<longrightarrow> (\<exists>d. ioc_dict ex ioc t = Inr d))"
proof (induction iocs arbitrary: c bs b out)
  case Nil
  then show ?case by (simp add: encoded_iocs_def skip_messages_def)
next
  case (Cons ioc iocs)
  from Cons.prems(1) obtain r where r: "cs_type ioc = Inr r"
    by (cases "cs_type ioc") auto
  show ?case
  proof (cases r)
    case None
    with r Cons.prems(1) obtain t v where
      t: "getitem ioc ''type'' = Inr t" and v: "getitem ioc ''value'' = Inr v"
      and rest: "block_loop ex iocs (c, bs, b, out @ [NoCrowdstrikeType t v])
                 = Inr (c', bs', b', out')"
      by (auto split: sum.splits)
    from Cons.IH[OF rest Cons.prems(2)] r None t v show ?thesis
      by (simp add: encoded_iocs_Cons skip_messages_Cons)
  next
    case (Some t)
    with r Cons.prems(1) obtain d where d: "ioc_dict ex ioc t = Inr d"
      by (auto split: sum.splits)
    show ?thesis
    proof (cases "length (b @ [d]) \<ge> 200")
      case True
      with r Some d Cons.prems(1)
      have rest: "block_loop ex iocs (c + 1, bs @ [b @ [d]], [], out) = Inr (c', bs', b', out')"
        by (simp add: Let_def)
      have len: "length (b @ [d]) = 200" using True Cons.prems(2) by simp
      from Cons.IH[OF rest] obtain new where
        a: "concat bs' @ b' = concat (bs @ [b @ [d]]) @ [] @ encoded_iocs ex iocs"
        and b: "out' = out @ skip_messages iocs"
        and c: "c' = c + 1 + length (encoded_iocs ex iocs)"
        and e: "length b' < 200"
        and f: "bs' = (bs @ [b @ [d]]) @ new" "\<forall>x \<in> set new. length x = 200"
        and g: "\<forall>ioc \<in> set iocs. \<forall>t. cs_type ioc = Inr (Some t) \<longrightarrow> (\<exists>d. ioc_dict ex ioc t = Inr d)"
        by auto
      from f len have "bs' = bs @ ((b @ [d]) # new) \<and> (\<forall>x \<in> set ((b @ [d]) # new). length x = 200)"
        by simp
      then have f': "\<exists>new. bs' = bs @ new \<and> (\<forall>x \<in> set new. length x = 200)"
        by blast
      from a b c e f' g r Some d show ?thesis
        by (simp add: encoded_iocs_Cons skip_messages_Cons)
    next
      case False
      with r Some d Cons.prems(1)
      have rest: "block_loop ex iocs (c + 1, bs, b @ [d], out) = Inr (c', bs', b', out')"
        by (simp add: Let_def)
      from False have "length (b @ [d]) < 200" by simp
      from Cons.IH[OF rest this] r Some d show ?thesis
        by (simp add: encoded_iocs_Cons skip_messages_Cons)
    qed
  qed
qed

lemma strs_returns: "list_all is_JStr xs \<Longrightarrow> \<exists>ss. strs xs = Inr ss"
proof (induction xs)
  case Nil
  then show ?case by simp
next
  case (Cons x xs)
  then show ?case by (cases x) (auto simp: is_JStr_def)
qed

lemma ioc_dict_well_formed:
  "well_formed_ioc ioc \<Longrightarrow> \<exists>s. cs_type ioc = Inr s \<and>
     (\<exists>t. getitem ioc ''type'' = Inr t) \<and> (\<exists>v. getitem ioc ''value'' = Inr v) \<and>
     (\<forall>t. \<exists>d. ioc_dict ex ioc t = Inr d)"
proof -
  assume wf: "well_formed_ioc ioc"
  then obtain t where t: "map_of ioc ''type'' = Some (JStr t)"
    by (auto simp: well_formed_ioc_def is_JStr_def split: option.splits json.splits)
  from wf obtain v where v: "map_of ioc ''value'' = Some v"
    by (auto simp: well_formed_ioc_def)
  from wf consider (str) s where "map_of ioc ''tags'' = Some (JStr s)"
    | (list) xs where "map_of ioc ''tags'' = Some (JList xs)" "list_all is_JStr xs"
    by (auto simp: well_formed_ioc_def split: option.splits json.splits)
  then have "\<exists>tags d. map_of ioc ''tags'' = Some tags \<and> tags_description tags = Inr d"
  proof cases
    case str
    then show ?thesis by (simp add: tags_description_def)
  next
    case list
    from strs_returns[OF list(2)] obtain ss where "strs xs = Inr ss" by blast
    with list(1) show ?thesis
      by (simp add: tags_description_def iter_def py_join_def)
  qed
  with t v show ?thesis
    by (auto simp: cs_type_def type_lookup_def getitem_def ioc_dict_def)
qed

lemma block_loop_returns:
  "\<forall>ioc \<in> set iocs. well_formed_ioc ioc \<Longrightarrow> \<exists>r. block_loop ex iocs st = Inr r"
proof (induction iocs arbitrary: st)
  case Nil
  show ?case by (cases st) simp
next
  case (Cons ioc iocs)
  obtain c bs b out where st: "st = (c, bs, b, out)" by (rule prod_cases4)
  from Cons.prems have wf: "well_formed_ioc ioc" and rest: "\<forall>ioc \<in> set iocs. well_formed_ioc ioc"
    by auto
  from ioc_dict_well_formed[OF wf, of ex] obtain s t0 v where
    s: "cs_type ioc = Inr s" and t0: "getitem ioc ''type'' = Inr t0"
    and v: "getitem ioc ''value'' = Inr v" and d: "\<forall>t. \<exists>d. ioc_dict ex ioc t = Inr d"
    by blast
  show ?case
  proof (cases s)
    case None
    with s t0 v st Cons.IH[OF rest] show ?thesis by simp
  next
    case (Some t)
    from d obtain dd where "ioc_dict ex ioc t = Inr dd" by blast
    with Some s st Cons.IH[OF rest] show ?thesis by (simp add: Let_def)
  qed
qed

text \<open>
  C6. In upload_iocs, for every list of filtered IOCs the first loop returns, and what it
  returns is this: the IOCs whose type has an entry in \<open>TYPE_MAP\<close> are encoded and cut, in
  input order, into consecutive blocks, every block non-empty and of at most 200 entries
  (all but the last of exactly 200); the concatenation of the blocks is the encoded
  sequence of exactly the mapped IOCs, each once; \<open>ioc_count\<close> is their number; an IOC
  whose type has no entry is in no block and has its printed line.
\<close>

theorem upload_iocs_blocks_partition:
  "((\<forall>ioc \<in> set iocs. well_formed_ioc ioc) \<longrightarrow> (\<exists>r. make_blocks ex iocs = Inr r)) \<and>
   (make_blocks ex iocs = Inr (ioc_count, ioc_blocks, out) \<longrightarrow>
      concat ioc_blocks = encoded_iocs ex iocs \<and>
      (\<forall>b \<in> set ioc_blocks. 0 < length b \<and> length b \<le> 200) \<and>
      (\<forall>b \<in> set (butlast ioc_blocks). length b = 200) \<and>
      (\<forall>ioc \<in> set iocs. \<forall>t. cs_type ioc = Inr (Some t) \<longrightarrow> (\<exists>d. ioc_dict ex ioc t = Inr d)) \<and>
      ioc_count = length (encoded_iocs ex iocs) \<and>
      out = skip_messages iocs)"
proof (intro conjI impI)
  assume "\<forall>ioc \<in> set iocs. well_formed_ioc ioc"
  from block_loop_returns[OF this, of ex "(0, [], [], [])"]
  show "\<exists>r. make_blocks ex iocs = Inr r"
    by (auto simp: make_blocks_def)
next
  assume mb: "make_blocks ex iocs = Inr (ioc_count, ioc_blocks, out)"
  then obtain bs' b' where
    loop: "block_loop ex iocs (0, [], [], []) = Inr (ioc_count, bs', b', out)"
    and blocks: "ioc_blocks = (if b' \<noteq> [] then bs' @ [b'] else bs')"
    by (auto simp: make_blocks_def split: sum.splits)
  from block_loop_inv[OF loop] have
    a: "concat bs' @ b' = encoded_iocs ex iocs"
    and b: "out = skip_messages iocs"
    and c: "ioc_count = length (encoded_iocs ex iocs)"
    and e: "length b' < 200"
    and f: "\<forall>x \<in> set bs'. length x = 200"
    and g: "\<forall>ioc \<in> set iocs. \<forall>t. cs_type ioc = Inr (Some t) \<longrightarrow> (\<exists>d. ioc_dict ex ioc t = Inr d)"
    by auto
  from a blocks show "concat ioc_blocks = encoded_iocs ex iocs" by auto
  from e f blocks show "\<forall>b \<in> set ioc_blocks. 0 < length b \<and> length b \<le> 200" by auto
  from f blocks show "\<forall>b \<in> set (butlast ioc_blocks). length b = 200"
    by (auto dest: in_set_butlastD)
  from g show "\<forall>ioc \<in> set iocs. \<forall>t. cs_type ioc = Inr (Some t) \<longrightarrow> (\<exists>d. ioc_dict ex ioc t = Inr d)" .
  from c show "ioc_count = length (encoded_iocs ex iocs)" .
  from b show "out = skip_messages iocs" .
qed

theorem upload_iocs_blocks_partition_witness:
  "list_all well_formed_ioc
     [[(''value'', JStr ''evil.example''), (''type'', JStr ''domain''),
       (''tags'', JStr ''tlp:amber|phishing'')],
      [(''value'', JStr ''a.exe''), (''type'', JStr ''filename''), (''tags'', JStr '''')],
      [(''value'', JStr ''203.0.113.7''), (''type'', JStr ''ip-dst''),
       (''tags'', JList [JStr ''c2'', JStr ''botnet''])]] \<and>
   make_blocks ''2026-05-03T00:00:00.000Z''
     [[(''value'', JStr ''evil.example''), (''type'', JStr ''domain''),
       (''tags'', JStr ''tlp:amber|phishing'')],
      [(''value'', JStr ''a.exe''), (''type'', JStr ''filename''), (''tags'', JStr '''')],
      [(''value'', JStr ''203.0.113.7''), (''type'', JStr ''ip-dst''),
       (''tags'', JList [JStr ''c2'', JStr ''botnet''])]]
   = Inr (2,
          [[\<lparr>source = ''RH-ISAC Vetted'', action = ''detect'',
             expiration = ''2026-05-03T00:00:00.000Z'', description = ''tlp:amber|phishing'',
             ioc_type = ''domain'', ioc_value = JStr ''evil.example'', severity = ''HIGH'',
             applied_globally = True, platforms = [''windows'']\<rparr>,
            \<lparr>source = ''RH-ISAC Vetted'', action = ''detect'',
             expiration = ''2026-05-03T00:00:00.000Z'', description = ''c2 | botnet'',
             ioc_type = ''ipv4'', ioc_value = JStr ''203.0.113.7'', severity = ''HIGH'',
             applied_globally = True, platforms = [''windows'']\<rparr>]],
          [NoCrowdstrikeType (JStr ''filename'') (JStr ''a.exe'')]) \<and>
   [NoCrowdstrikeType (JStr ''filename'') (JStr ''a.exe'')]
   = skip_messages
      [[(''value'', JStr ''evil.example''), (''type'', JStr ''domain''),
        (''tags'', JStr ''tlp:amber|phishing'')],
       [(''value'', JStr ''a.exe''), (''type'', JStr ''filename''), (''tags'', JStr '''')],
       [(''value'', JStr ''203.0.113.7''), (''type'', JStr ''ip-dst''),
        (''tags'', JList [JStr ''c2'', JStr ''botnet''])]]"
proof -
  let ?iocs = "[[(''value'', JStr ''evil.example''), (''type'', JStr ''domain''),
                 (''tags'', JStr ''tlp:amber|phishing'')],
                [(''value'', JStr ''a.exe''), (''type'', JStr ''filename''),
                 (''tags'', JStr '''')],
                [(''value'', JStr ''203.0.113.7''), (''type'', JStr ''ip-dst''),
                 (''tags'', JList [JStr ''c2'', JStr ''botnet''])]]"
  let ?ex = "''2026-05-03T00:00:00.000Z''"
  let ?blocks = "[[\<lparr>source = ''RH-ISAC Vetted'', action = ''detect'',
             expiration = ?ex, description = ''tlp:amber|phishing'',
             ioc_type = ''domain'', ioc_value = JStr ''evil.example'', severity = ''HIGH'',
             applied_globally = True, platforms = [''windows'']\<rparr>,
            \<lparr>source = ''RH-ISAC Vetted'', action = ''detect'',
             expiration = ?ex, description = ''c2 | botnet'',
             ioc_type = ''ipv4'', ioc_value = JStr ''203.0.113.7'', severity = ''HIGH'',
             applied_globally = True, platforms = [''windows'']\<rparr>]]"
  let ?out = "[NoCrowdstrikeType (JStr ''filename'') (JStr ''a.exe'')]"
  have wf: "\<forall>ioc \<in> set ?iocs. well_formed_ioc ioc"
    by (simp add: well_formed_ioc_def is_JStr_def)
  have run: "make_blocks ?ex ?iocs = Inr (2, ?blocks, ?out)"
    by (simp add: make_blocks_def cs_type_def type_lookup_def TYPE_MAP_def getitem_def
        ioc_dict_def tags_description_def iter_def py_join_def)
  from wf have wf': "list_all well_formed_ioc ?iocs" by (simp only: list_all_iff)
  from upload_iocs_blocks_partition[of ?iocs ?ex 2 ?blocks ?out] run
  have "?out = skip_messages ?iocs" by blast
  with wf' run show ?thesis by blast
qed

section \<open>Properties of upload_iocs: the submissions\<close>

text \<open>One block makes one request, and a second one exactly when the response to the
  first has status 400; the second carries what the error loop left of the block.\<close>

lemma submit_block_sent:
  "fst (submit_block falcon n i block (sent, out)) =
     (if status_code (falcon (length sent) block) = 400
      then sent @ [block,
             fst (process_errors (resources (falcon (length sent) block))
                    (block, (if debug then out @ [SubmittingBlock (i + 1) n, Blank,
                                 PrintResponse (falcon (length sent) block), Blank]
                             else out @ [SubmittingBlock (i + 1) n, Blank]) @ [Processing400]))]
      else sent @ [block])"
  by (simp add: Let_def split: prod.splits)

text \<open>
  C5, at a failing input. Two IOCs of one block carry the same value (one domain seen in
  two MISP events), the first response is a 400 whose body names that value in one
  \<open>Warning: Duplicate type\<close> error: the block is resubmitted once, and the resubmitted
  block still holds the second IOC of that value.
\<close>

theorem upload_iocs_duplicate_survives:
  "upload_iocs ''2026-05-03T00:00:00.000Z''
     (\<lambda>n block. if n = 0
        then \<lparr>status_code = 400,
              resources = [\<lparr>message = ''Warning: Duplicate type: domain and value'',
                            err_value = JStr ''evil.example''\<rparr>]\<rparr>
        else \<lparr>status_code = 201, resources = []\<rparr>)
     [[(''value'', JStr ''evil.example''), (''type'', JStr ''domain''),
       (''tags'', JStr ''tlp:amber'')],
      [(''value'', JStr ''evil.example''), (''type'', JStr ''domain''),
       (''tags'', JStr ''tlp:green'')]]
   = Inr ([[\<lparr>source = ''RH-ISAC Vetted'', action = ''detect'',
             expiration = ''2026-05-03T00:00:00.000Z'', description = ''tlp:amber'',
             ioc_type = ''domain'', ioc_value = JStr ''evil.example'', severity = ''HIGH'',
             applied_globally = True, platforms = [''windows'']\<rparr>,
            \<lparr>source = ''RH-ISAC Vetted'', action = ''detect'',
             expiration = ''2026-05-03T00:00:00.000Z'', description = ''tlp:green'',
             ioc_type = ''domain'', ioc_value = JStr ''evil.example'', severity = ''HIGH'',
             applied_globally = True, platforms = [''windows'']\<rparr>],
           [\<lparr>source = ''RH-ISAC Vetted'', action = ''detect'',
             expiration = ''2026-05-03T00:00:00.000Z'', description = ''tlp:green'',
             ioc_type = ''domain'', ioc_value = JStr ''evil.example'', severity = ''HIGH'',
             applied_globally = True, platforms = [''windows'']\<rparr>]],
          [AboutToSubmit 2, SubmittingBlock 1 1, Blank, Processing400,
           RemovingDuplicate (JStr ''evil.example''), Uploading 1, UnknownError,
           PrintResponse \<lparr>status_code = 201, resources = []\<rparr>])"
  by (simp add: upload_iocs_def make_blocks_def cs_type_def type_lookup_def TYPE_MAP_def
      getitem_def ioc_dict_def tags_description_def debug_def Let_def)

section \<open>Properties of build_field_values: what is returned for what is given\<close>

lemma contains_split1:
  "sep \<noteq> [] \<Longrightarrow> contains sep s \<Longrightarrow> \<exists>a b. split1 sep s = [a, b]"
proof (induction s)
  case Nil
  then show ?case by simp
next
  case (Cons c cs)
  show ?case
  proof (cases "take (length sep) (c # cs) = sep")
    case True
    then show ?thesis by simp
  next
    case False
    with Cons.prems have "contains sep cs" by simp
    from Cons.IH[OF Cons.prems(1) this] obtain a b where "split1 sep cs = [a, b]" by blast
    with False show ?thesis by simp
  qed
qed

lemma strip_scheme_returns: "\<exists>s. strip_scheme v = Inr s"
proof (cases "contains ''://'' v")
  case True
  from contains_split1[OF _ True] obtain a b where "split1 ''://'' v = [a, b]" by auto
  with True show ?thesis by (simp add: strip_scheme_def)
next
  case False
  then show ?thesis by (simp add: strip_scheme_def)
qed

lemma reclassify_url_returns: "\<exists>out. reclassify_url v flds = Inr out"
proof -
  from strip_scheme_returns obtain s where s: "strip_scheme v = Inr s" by blast
  show ?thesis
  proof (cases "contains ''/'' s")
    case True
    from contains_split1[OF _ True] obtain a b where "split1 ''/'' s = [a, b]" by auto
    with s True show ?thesis by (simp add: reclassify_url_def)
  next
    case False
    with s show ?thesis by (simp add: reclassify_url_def)
  qed
qed

lemma build_field_values_length:
  "build_field_values inds = Inr out \<Longrightarrow> length out = length inds"
proof (induction inds arbitrary: out)
  case Nil
  then show ?case by simp
next
  case (Cons ind inds)
  then show ?case by (auto split: sum.splits)
qed


lemma strip_scheme_misp_returns: "\<exists>r. strip_scheme_misp (JStr v) = Inr (JStr r)"
proof (cases "contains ''://'' v")
  case True
  from contains_split1[OF _ True] obtain a b where "split1 ''://'' v = [a, b]" by auto
  with True show ?thesis by (simp add: strip_scheme_misp_def py_in_def)
next
  case False
  then show ?thesis by (simp add: strip_scheme_misp_def py_in_def)
qed

lemma reclassify_url_misp_returns: "\<exists>out. reclassify_url_misp (JStr v) flds = Inr out"
proof -
  from strip_scheme_misp_returns obtain s where s: "strip_scheme_misp (JStr v) = Inr (JStr s)"
    by blast
  show ?thesis
  proof (cases "contains ''/'' s")
    case True
    from contains_split1[OF _ True] obtain a b where "split1 ''/'' s = [a, b]" by auto
    with s True show ?thesis by (simp add: reclassify_url_misp_def py_in_def)
  next
    case False
    with s show ?thesis by (simp add: reclassify_url_misp_def py_in_def)
  qed
qed

lemma build_fields_misp_kept:
  "build_fields_misp ind = Inr (Inl flds) \<Longrightarrow> accepted ind"
  by (auto simp: build_fields_misp_def accepted_def getitem_def
      split: sum.splits option.splits if_splits)

lemma build_fields_misp_skipped:
  "build_fields_misp ind = Inr (Inr m) \<Longrightarrow>
   \<exists>t. map_of ind ''type'' = Some t \<and> t \<notin> JStr ` set ACCEPTED_TYPES \<and> m = ErrorParsingType t"
  by (auto simp: build_fields_misp_def getitem_def split: sum.splits option.splits if_splits)

lemma skip_lines_Cons:
  "skip_lines (ind # inds) =
     (case map_of ind ''type'' of
        Some t \<Rightarrow> (if t \<in> JStr ` set ACCEPTED_TYPES then [] else [ErrorParsingType t])
      | None \<Rightarrow> []) @ skip_lines inds"
  by (simp add: skip_lines_def)

lemma build_field_values_misp_account:
  "build_field_values_misp inds = Inr (out, printed) \<Longrightarrow>
   length out = length (filter accepted inds) \<and> printed = skip_lines inds \<and>
   length out + length printed = length inds"
proof (induction inds arbitrary: out printed)
  case Nil
  then show ?case by (simp add: skip_lines_def)
next
  case (Cons ind inds)
  from Cons.prems obtain r out' printed' where
    r: "build_fields_misp ind = Inr r"
    and rest: "build_field_values_misp inds = Inr (out', printed')"
    and res: "(out, printed) = (case r of Inl flds \<Rightarrow> (flds # out', printed')
                                | Inr m \<Rightarrow> (out', m # printed'))"
    by (auto split: sum.splits)
  note IH = Cons.IH[OF rest]
  show ?case
  proof (cases r)
    case (Inl flds)
    with r have acc: "accepted ind" by (simp add: build_fields_misp_kept)
    then have "(case map_of ind ''type'' of
        Some t \<Rightarrow> (if t \<in> JStr ` set ACCEPTED_TYPES then [] else [ErrorParsingType t])
      | None \<Rightarrow> []) = []"
      by (auto simp: accepted_def split: option.splits)
    moreover from Inl res have "out = flds # out'" "printed = printed'" by simp_all
    moreover from IH have "length out' = length (filter accepted inds)"
      "printed' = skip_lines inds" "length out' + length printed' = length inds" by blast+
    ultimately show ?thesis using acc by (simp add: skip_lines_Cons)
  next
    case (Inr m)
    with r build_fields_misp_skipped[of ind m] obtain t where
      t: "map_of ind ''type'' = Some t" "t \<notin> JStr ` set ACCEPTED_TYPES" "m = ErrorParsingType t"
      by blast
    then have nacc: "\<not> accepted ind" by (simp add: accepted_def)
    from Inr res have "out = out'" "printed = m # printed'" by simp_all
    moreover from IH have "length out' = length (filter accepted inds)"
      "printed' = skip_lines inds" "length out' + length printed' = length inds" by blast+
    ultimately show ?thesis using nacc t by (simp add: skip_lines_Cons)
  qed
qed

text \<open>
  C4, at a failing input. The MISP script passes to build_field_values what
  filter_results returns, where the tags are one string, the names joined with \<open>|\<close>;
  build_field_values iterates over that string and subscripts each character with
  \<open>'event'\<close>. For an attribute that carries a tag besides the vetted marker the function
  raises TypeError: there is no output list and no line is printed for any indicator.
\<close>

theorem build_field_values_misp_raises_on_tags:
  "filter_results
     [[(''value'', JStr ''evil.example''), (''type'', JStr ''domain''),
       (''timestamp'', JStr ''1700000000''),
       (''Tag'', JList [JDict [(''name'', JStr ''rhisac: vetted'')],
                        JDict [(''name'', JStr ''tlp:amber'')]])]]
   = Inr [[(''value'', JStr ''evil.example''), (''type'', JStr ''domain''),
           (''timestamp'', JStr ''1700000000''), (''tags'', JStr ''tlp:amber'')]] \<and>
   build_field_values_misp
     [[(''value'', JStr ''evil.example''), (''type'', JStr ''domain''),
       (''timestamp'', JStr ''1700000000''), (''tags'', JStr ''tlp:amber'')]]
   = Inl TypeError"
  by (simp add: OUTPUT_FIELDS_def VETTED_TAG_def iter_def subscript_def getitem_def py_join_def
      build_fields_misp_def base_fields_misp_def int_of_def py_int_def unsigned_def
      is_digit_def is_space_def joined_tags_def)

section \<open>Properties of build_field_values: the URL reclassification\<close>

lemma contains_single: "contains [c] s \<longleftrightarrow> c \<in> set s"
  by (induction s) auto

lemma split1_single:
  "c \<in> set s \<Longrightarrow> split1 [c] s = [takeWhile (\<lambda>x. x \<noteq> c) s, tl (dropWhile (\<lambda>x. x \<noteq> c) s)]"
proof (induction s)
  case Nil
  then show ?case by simp
next
  case (Cons x xs)
  show ?case
  proof (cases "x = c")
    case True
    then show ?thesis by simp
  next
    case False
    with Cons.prems have "c \<in> set xs" by simp
    from Cons.IH[OF this] False show ?thesis by simp
  qed
qed

lemma butlast_netloc:
  assumes "c \<in> set s" and "tl (dropWhile (\<lambda>x. x \<noteq> c) s) = []"
  shows "butlast s = takeWhile (\<lambda>x. x \<noteq> c) s"
proof -
  from assms(1) have ne: "dropWhile (\<lambda>x. x \<noteq> c) s \<noteq> []" by (simp add: dropWhile_eq_Nil_conv)
  then obtain y ys where d: "dropWhile (\<lambda>x. x \<noteq> c) s = y # ys"
    by (cases "dropWhile (\<lambda>x. x \<noteq> c) s") auto
  with assms(2) have "ys = []" by simp
  with d have "s = takeWhile (\<lambda>x. x \<noteq> c) s @ [y]"
    using takeWhile_dropWhile_id[of "\<lambda>x. x \<noteq> c" s] by simp
  then have "butlast s = butlast (takeWhile (\<lambda>x. x \<noteq> c) s @ [y])" by simp
  then show ?thesis by simp
qed

lemma split1_scheme:
  "CHR '':'' \<notin> set scheme \<Longrightarrow>
   contains ''://'' (scheme @ ''://'' @ rest) \<and> split1 ''://'' (scheme @ ''://'' @ rest) = [scheme, rest]"
  by (induction scheme) auto

lemma strip_scheme_split: "CHR '':'' \<notin> set scheme \<Longrightarrow> strip_scheme (scheme @ ''://'' @ rest) = Inr rest"
  using split1_scheme[of scheme rest] by (simp add: strip_scheme_def)

lemma strip_scheme_none: "\<not> contains ''://'' v \<Longrightarrow> strip_scheme v = Inr v"
  by (simp add: strip_scheme_def)

lemma strip_scheme_misp_str:
  "strip_scheme v = Inr s \<Longrightarrow> strip_scheme_misp (JStr v) = Inr (JStr s)"
  by (auto simp: strip_scheme_def strip_scheme_misp_def py_in_def split: if_splits list.splits)

lemma lower_URL: "lower ''URL'' = ''url''" "lower ''url'' = ''url''"
  by (simp_all add: lower_def lower_char_def)

lemma reclassify_url_tree:
  assumes s: "strip_scheme v = Inr s"
    and t: "map_of flds ''ioc_type'' = Some (JStr ''url'')"
    and val: "map_of flds ''value'' = Some (JStr v)"
    and w: "map_of flds ''wildcard'' = None"
  shows "\<exists>out. reclassify_url v flds = Inr out \<and>
     (if CHR ''/'' \<notin> set s
      then (if CHR ''@'' \<notin> set s \<and> CHR '':'' \<notin> set s then domain_record out s
            else url_record out v None)
      else if path_of s = [] \<and> CHR ''@'' \<notin> set (netloc_of s) \<and> CHR '':'' \<notin> set (netloc_of s)
        then domain_record out (netloc_of s)
        else url_record out v (Some (CHR ''*'' # s)))"
proof (cases "CHR ''/'' \<in> set s")
  case False
  with s t val w show ?thesis
    by (simp add: reclassify_url_def contains_single domain_record_def url_record_def
        setitem_lookup)
next
  case True
  from split1_single[OF True]
  have sp: "split1 ''/'' s = [netloc_of s, path_of s]"
    by (simp add: netloc_of_def path_of_def)
  show ?thesis
  proof (cases "path_of s = [] \<and> CHR ''@'' \<notin> set (netloc_of s) \<and> CHR '':'' \<notin> set (netloc_of s)")
    case dom: True
    then have "butlast s = netloc_of s"
      using butlast_netloc[OF True] by (simp add: path_of_def netloc_of_def)
    with s t val w True sp dom show ?thesis
      by (simp add: reclassify_url_def contains_single domain_record_def setitem_lookup)
  next
    case url: False
    with s t val w True sp show ?thesis
      by (auto simp: reclassify_url_def contains_single url_record_def setitem_lookup)
  qed
qed

lemma reclassify_url_misp_tree:
  assumes s: "strip_scheme v = Inr s"
    and slash: "CHR ''/'' \<in> set s"
    and t: "map_of flds ''ioc_type'' = Some (JStr ''url'')"
    and val: "map_of flds ''value'' = Some (JStr v)"
    and w: "map_of flds ''wildcard'' = None"
  shows "\<exists>out. reclassify_url_misp (JStr v) flds = Inr out \<and>
     (if path_of s = [] \<and> CHR ''@'' \<notin> set (netloc_of s) \<and> CHR '':'' \<notin> set (netloc_of s)
      then domain_record out (netloc_of s)
      else url_record out v (Some (CHR ''*'' # s)))"
proof -
  from split1_single[OF slash]
  have sp: "split1 ''/'' s = [netloc_of s, path_of s]"
    by (simp add: netloc_of_def path_of_def)
  note ss = strip_scheme_misp_str[OF s]
  show ?thesis
  proof (cases "path_of s = [] \<and> CHR ''@'' \<notin> set (netloc_of s) \<and> CHR '':'' \<notin> set (netloc_of s)")
    case dom: True
    then have "butlast s = netloc_of s"
      using butlast_netloc[OF slash] by (simp add: path_of_def netloc_of_def)
    with ss t val w slash sp dom show ?thesis
      by (simp add: reclassify_url_misp_def py_in_def contains_single domain_record_def
          setitem_lookup)
  next
    case url: False
    with ss t val w slash sp show ?thesis
      by (auto simp: reclassify_url_misp_def py_in_def contains_single url_record_def
          setitem_lookup)
  qed
qed

lemma base_fields_lookup:
  "base_fields ind = Inr flds \<Longrightarrow>
   map_of flds ''ioc_type'' = Some (JStr (lower (indicatorType ind))) \<and>
   map_of flds ''value'' = Some (JStr (ind_value ind)) \<and> map_of flds ''wildcard'' = None"
  by (auto simp: base_fields_def split: sum.splits)

lemma base_fields_misp_lookup:
  "base_fields_misp ind = Inr flds \<Longrightarrow> map_of ind ''type'' = Some (JStr t) \<Longrightarrow>
   map_of ind ''value'' = Some v \<Longrightarrow>
   map_of flds ''ioc_type'' = Some (JStr (lower t)) \<and>
   map_of flds ''value'' = Some v \<and> map_of flds ''wildcard'' = None"
  by (auto simp: base_fields_misp_def getitem_def split: sum.splits)

text \<open>
  C2, as amended. For an indicator typed URL, with \<open>s\<close> the value after the scheme (up
  to the first \<open>://\<close>) is stripped, both scripts do this when a \<open>/\<close> remains in \<open>s\<close>:
  if nothing follows the first \<open>/\<close> and neither \<open>@\<close> nor \<open>:\<close> is in the network
  location before it, the record becomes a domain whose value is that network location;
  otherwise it stays a URL with its value unchanged and gets the wildcard \<open>*s\<close>. When no
  \<open>/\<close> remains, the TruSTAR script makes the record a domain of value \<open>s\<close> if neither
  \<open>@\<close> nor \<open>:\<close> is in \<open>s\<close>, and otherwise leaves it a URL, unchanged and without a
  wildcard.
\<close>

theorem url_reclassification:
  "(base_fields ind = Inr flds \<and> indicatorType ind = ''URL'' \<longrightarrow>
      (\<exists>s out. strip_scheme (ind_value ind) = Inr s \<and> build_fields ind = Inr out \<and>
         (if CHR ''/'' \<notin> set s
          then (if CHR ''@'' \<notin> set s \<and> CHR '':'' \<notin> set s then domain_record out s
                else url_record out (ind_value ind) None)
          else if path_of s = [] \<and> CHR ''@'' \<notin> set (netloc_of s) \<and> CHR '':'' \<notin> set (netloc_of s)
            then domain_record out (netloc_of s)
            else url_record out (ind_value ind) (Some (CHR ''*'' # s))))) \<and>
   (base_fields_misp mind = Inr mflds \<and> map_of mind ''type'' = Some (JStr ''url'') \<and>
    map_of mind ''value'' = Some (JStr v) \<longrightarrow>
      (\<exists>s. strip_scheme v = Inr s \<and>
         (CHR ''/'' \<in> set s \<longrightarrow>
            (\<exists>out. build_fields_misp mind = Inr (Inl out) \<and>
               (if path_of s = [] \<and> CHR ''@'' \<notin> set (netloc_of s) \<and> CHR '':'' \<notin> set (netloc_of s)
                then domain_record out (netloc_of s)
                else url_record out v (Some (CHR ''*'' # s))))))) \<and>
   (CHR '':'' \<notin> set scheme \<longrightarrow> strip_scheme (scheme @ ''://'' @ rest) = Inr rest) \<and>
   (\<not> contains ''://'' u \<longrightarrow> strip_scheme u = Inr u)"
proof (intro conjI impI)
  assume a: "base_fields ind = Inr flds \<and> indicatorType ind = ''URL''"
  from strip_scheme_returns obtain s where s: "strip_scheme (ind_value ind) = Inr s" by blast
  from a base_fields_lookup[of ind flds] have
    l: "map_of flds ''ioc_type'' = Some (JStr ''url'')"
       "map_of flds ''value'' = Some (JStr (ind_value ind))" "map_of flds ''wildcard'' = None"
    by (simp_all add: lower_URL)
  from reclassify_url_tree[OF s l] obtain out where
    out: "reclassify_url (ind_value ind) flds = Inr out"
    and tree: "(if CHR ''/'' \<notin> set s
          then (if CHR ''@'' \<notin> set s \<and> CHR '':'' \<notin> set s then domain_record out s
                else url_record out (ind_value ind) None)
          else if path_of s = [] \<and> CHR ''@'' \<notin> set (netloc_of s) \<and> CHR '':'' \<notin> set (netloc_of s)
            then domain_record out (netloc_of s)
            else url_record out (ind_value ind) (Some (CHR ''*'' # s)))"
    by blast
  from a out have "build_fields ind = Inr out" by (simp add: build_fields_def)
  with s tree show "\<exists>s out. strip_scheme (ind_value ind) = Inr s \<and> build_fields ind = Inr out \<and>
         (if CHR ''/'' \<notin> set s
          then (if CHR ''@'' \<notin> set s \<and> CHR '':'' \<notin> set s then domain_record out s
                else url_record out (ind_value ind) None)
          else if path_of s = [] \<and> CHR ''@'' \<notin> set (netloc_of s) \<and> CHR '':'' \<notin> set (netloc_of s)
            then domain_record out (netloc_of s)
            else url_record out (ind_value ind) (Some (CHR ''*'' # s)))"
    by blast
next
  assume a: "base_fields_misp mind = Inr mflds \<and> map_of mind ''type'' = Some (JStr ''url'') \<and>
    map_of mind ''value'' = Some (JStr v)"
  from strip_scheme_returns obtain s where s: "strip_scheme v = Inr s" by blast
  from a base_fields_misp_lookup[of mind mflds "''url''" "JStr v"] have
    l: "map_of mflds ''ioc_type'' = Some (JStr ''url'')"
       "map_of mflds ''value'' = Some (JStr v)" "map_of mflds ''wildcard'' = None"
    by (simp_all add: lower_URL)
  have "CHR ''/'' \<in> set s \<longrightarrow>
            (\<exists>out. build_fields_misp mind = Inr (Inl out) \<and>
               (if path_of s = [] \<and> CHR ''@'' \<notin> set (netloc_of s) \<and> CHR '':'' \<notin> set (netloc_of s)
                then domain_record out (netloc_of s)
                else url_record out v (Some (CHR ''*'' # s))))"
  proof
    assume slash: "CHR ''/'' \<in> set s"
    from reclassify_url_misp_tree[OF s slash l] obtain out where
      out: "reclassify_url_misp (JStr v) mflds = Inr out"
      and tree: "(if path_of s = [] \<and> CHR ''@'' \<notin> set (netloc_of s) \<and> CHR '':'' \<notin> set (netloc_of s)
                then domain_record out (netloc_of s)
                else url_record out v (Some (CHR ''*'' # s)))"
      by blast
    from a out have "build_fields_misp mind = Inr (Inl out)"
      by (simp add: build_fields_misp_def getitem_def ACCEPTED_TYPES_def)
    with tree show "\<exists>out. build_fields_misp mind = Inr (Inl out) \<and>
               (if path_of s = [] \<and> CHR ''@'' \<notin> set (netloc_of s) \<and> CHR '':'' \<notin> set (netloc_of s)
                then domain_record out (netloc_of s)
                else url_record out v (Some (CHR ''*'' # s)))"
      by blast
  qed
  with s show "\<exists>s. strip_scheme v = Inr s \<and>
         (CHR ''/'' \<in> set s \<longrightarrow>
            (\<exists>out. build_fields_misp mind = Inr (Inl out) \<and>
               (if path_of s = [] \<and> CHR ''@'' \<notin> set (netloc_of s) \<and> CHR '':'' \<notin> set (netloc_of s)
                then domain_record out (netloc_of s)
                else url_record out v (Some (CHR ''*'' # s)))))"
    by blast
next
  assume "CHR '':'' \<notin> set scheme"
  then show "strip_scheme (scheme @ ''://'' @ rest) = Inr rest" by (rule strip_scheme_split)
next
  assume "\<not> contains ''://'' u"
  then show "strip_scheme u = Inr u" by (rule strip_scheme_none)
qed

theorem url_reclassification_witness:
  "build_fields \<lparr>ind_value = ''http://example.com/'', indicatorType = ''URL'',
                  lastSeen = 1700000000123, ind_tags = JList []\<rparr>
   = Inr [(''value'', JStr ''example.com''), (''ioc_type'', JStr ''domain''),
          (''updated'', JNum 1700000000), (''source'', JStr ''RH-ISAC Vetted''),
          (''tags'', JStr '''')] \<and>
   domain_record [(''value'', JStr ''example.com''), (''ioc_type'', JStr ''domain''),
          (''updated'', JNum 1700000000), (''source'', JStr ''RH-ISAC Vetted''),
          (''tags'', JStr '''')] ''example.com'' \<and>
   build_fields_misp [(''value'', JStr ''http://example.com/path''), (''type'', JStr ''url''),
                      (''timestamp'', JStr ''1700000000''), (''tags'', JStr '''')]
   = Inr (Inl [(''value'', JStr ''http://example.com/path''), (''ioc_type'', JStr ''url''),
               (''updated'', JQuot 1700000000 1000), (''source'', JStr ''RH-ISAC Vetted''),
               (''tags'', JStr ''''), (''wildcard'', JStr ''*example.com/path'')]) \<and>
   url_record [(''value'', JStr ''http://example.com/path''), (''ioc_type'', JStr ''url''),
               (''updated'', JQuot 1700000000 1000), (''source'', JStr ''RH-ISAC Vetted''),
               (''tags'', JStr ''''), (''wildcard'', JStr ''*example.com/path'')]
      ''http://example.com/path'' (Some ''*example.com/path'') \<and>
   strip_scheme ''http://example.com'' = Inr ''example.com'' \<and>
   strip_scheme ''example.com'' = Inr ''example.com''"
proof -
  let ?ind = "\<lparr>ind_value = ''http://example.com/'', indicatorType = ''URL'',
                  lastSeen = 1700000000123, ind_tags = JList []\<rparr>"
  let ?flds = "[(''value'', JStr ''http://example.com/''), (''ioc_type'', JStr ''url''),
          (''updated'', JNum 1700000000), (''source'', JStr ''RH-ISAC Vetted''),
          (''tags'', JStr '''')]"
  let ?out = "[(''value'', JStr ''example.com''), (''ioc_type'', JStr ''domain''),
          (''updated'', JNum 1700000000), (''source'', JStr ''RH-ISAC Vetted''),
          (''tags'', JStr '''')]"
  let ?mind = "[(''value'', JStr ''http://example.com/path''), (''type'', JStr ''url''),
                      (''timestamp'', JStr ''1700000000''), (''tags'', JStr '''')]"
  let ?mflds = "[(''value'', JStr ''http://example.com/path''), (''ioc_type'', JStr ''url''),
               (''updated'', JQuot 1700000000 1000), (''source'', JStr ''RH-ISAC Vetted''),
               (''tags'', JStr '''')]"
  let ?mout = "[(''value'', JStr ''http://example.com/path''), (''ioc_type'', JStr ''url''),
               (''updated'', JQuot 1700000000 1000), (''source'', JStr ''RH-ISAC Vetted''),
               (''tags'', JStr ''''), (''wildcard'', JStr ''*example.com/path'')]"
  note inst = url_reclassification[of ?ind ?flds ?mind ?mflds "''http://example.com/path''"
      "''http''" "''example.com''" "''example.com''"]
  have base: "base_fields ?ind = Inr ?flds \<and> indicatorType ?ind = ''URL''"
    by (simp add: base_fields_def joined_tags_def iter_def py_join_def lower_def lower_char_def)
  have ss: "strip_scheme (ind_value ?ind) = Inr ''example.com/''"
    by (simp add: strip_scheme_def)
  from inst base obtain s out where
    1: "strip_scheme (ind_value ?ind) = Inr s" and 2: "build_fields ?ind = Inr out"
    and 3: "(if CHR ''/'' \<notin> set s
          then (if CHR ''@'' \<notin> set s \<and> CHR '':'' \<notin> set s then domain_record out s
                else url_record out (ind_value ?ind) None)
          else if path_of s = [] \<and> CHR ''@'' \<notin> set (netloc_of s) \<and> CHR '':'' \<notin> set (netloc_of s)
            then domain_record out (netloc_of s)
            else url_record out (ind_value ?ind) (Some (CHR ''*'' # s)))"
    by blast
  from 1 ss have s: "s = ''example.com/''" by simp
  from 3 s have dom: "domain_record out ''example.com''"
    by (simp add: path_of_def netloc_of_def)
  have bf: "build_fields ?ind = Inr ?out"
    using base by (simp add: build_fields_def reclassify_url_def strip_scheme_def)
  with 2 have "out = ?out" by simp
  with dom have a: "domain_record ?out ''example.com''" by simp
  have mbase: "base_fields_misp ?mind = Inr ?mflds \<and> map_of ?mind ''type'' = Some (JStr ''url'') \<and>
      map_of ?mind ''value'' = Some (JStr ''http://example.com/path'')"
    by (simp add: base_fields_misp_def getitem_def int_of_def py_int_def unsigned_def
        is_digit_def is_space_def joined_tags_def iter_def py_join_def lower_def lower_char_def)
  have mss: "strip_scheme ''http://example.com/path'' = Inr ''example.com/path''"
    by (simp add: strip_scheme_def)
  from inst mbase obtain ms where
    m1: "strip_scheme ''http://example.com/path'' = Inr ms"
    and m2: "CHR ''/'' \<in> set ms \<longrightarrow>
            (\<exists>out. build_fields_misp ?mind = Inr (Inl out) \<and>
               (if path_of ms = [] \<and> CHR ''@'' \<notin> set (netloc_of ms) \<and> CHR '':'' \<notin> set (netloc_of ms)
                then domain_record out (netloc_of ms)
                else url_record out ''http://example.com/path'' (Some (CHR ''*'' # ms))))"
    by blast
  from m1 mss have ms: "ms = ''example.com/path''" by simp
  with m2 obtain mo where
    m3: "build_fields_misp ?mind = Inr (Inl mo)"
    and m4: "url_record mo ''http://example.com/path'' (Some ''*example.com/path'')"
    by (auto simp: path_of_def netloc_of_def)
  have mbf: "build_fields_misp ?mind = Inr (Inl ?mout)"
    using mbase by (simp add: build_fields_misp_def getitem_def reclassify_url_misp_def
        strip_scheme_misp_def py_in_def ACCEPTED_TYPES_def)
  with m3 have "mo = ?mout" by simp
  with m4 have b: "url_record ?mout ''http://example.com/path'' (Some ''*example.com/path'')"
    by simp
  from inst have c: "strip_scheme (''http'' @ ''://'' @ ''example.com'') = Inr ''example.com''"
    by simp
  have d: "strip_scheme ''example.com'' = Inr ''example.com''"
    by (simp add: strip_scheme_def)
  from bf a mbf b c d show ?thesis by simp
qed

text \<open>The four examples of the reclassification, on the TruSTAR script.\<close>

lemma reclassification_examples:
  "map (\<lambda>v. map_sum id (\<lambda>out. (map_of out ''ioc_type'', map_of out ''value'', map_of out ''wildcard''))
          (build_fields \<lparr>ind_value = v, indicatorType = ''URL'', lastSeen = 0,
                          ind_tags = JList []\<rparr>))
     [''http://example.com'', ''http://example.com/'', ''http://example.com/path'',
      ''http://user@example.com'']
   = [Inr (Some (JStr ''domain''), Some (JStr ''example.com''), None),
      Inr (Some (JStr ''domain''), Some (JStr ''example.com''), None),
      Inr (Some (JStr ''url''), Some (JStr ''http://example.com/path''),
           Some (JStr ''*example.com/path'')),
      Inr (Some (JStr ''url''), Some (JStr ''http://user@example.com''), None)]"
  by (simp add: build_fields_def base_fields_def joined_tags_def iter_def py_join_def
      lower_def lower_char_def reclassify_url_def strip_scheme_def setitem_lookup)

text \<open>
  C2 as stated fails: after the scheme of \<open>http://example.com:8080\<close> is stripped no \<open>/\<close>
  remains, and the record is not retyped as a domain; it stays a URL, unchanged.
\<close>

theorem url_without_slash_counterexample:
  "strip_scheme ''http://example.com:8080'' = Inr ''example.com:8080'' \<and>
   CHR ''/'' \<notin> set ''example.com:8080'' \<and>
   build_field_values [\<lparr>ind_value = ''http://example.com:8080'', indicatorType = ''URL'',
                        lastSeen = 1700000000123, ind_tags = JList []\<rparr>]
   = Inr [[(''value'', JStr ''http://example.com:8080''), (''ioc_type'', JStr ''url''),
           (''updated'', JNum 1700000000), (''source'', JStr ''RH-ISAC Vetted''),
           (''tags'', JStr '''')]]"
  by (simp add: build_fields_def base_fields_def joined_tags_def iter_def py_join_def
      lower_def lower_char_def reclassify_url_def strip_scheme_def)

section \<open>Properties of the CSV writers\<close>

lemma strs_map_JStr: "strs (map JStr ns) = Inr ns"
  by (induction ns) auto

lemma py_join_map_JStr: "py_join sep (map JStr ns) = Inr (str_join sep ns)"
  by (simp add: py_join_def strs_map_JStr)

lemma names_of_objects:
  "list_all2 (\<lambda>t n. \<exists>d. t = JDict d \<and> map_of d k = Some (JStr n)) ts ns \<Longrightarrow>
   names_of k ts = Inr (map JStr ns)"
proof (induction ts ns rule: list_all2_induct)
  case Nil
  then show ?case by simp
next
  case (Cons t ts n ns)
  then show ?case by (auto simp: subscript_def getitem_def)
qed

lemma flatten_tags_objects:
  assumes "list_all2 (\<lambda>t n. \<exists>d. t = JDict d \<and> map_of d ''name'' = Some (JStr n)) ts ns"
    and "map_of ind ''tags'' = Some (JList ts)"
  shows "flatten_tags ind = Inr (map JStr ns)"
proof (cases ts)
  case Nil
  with assms show ?thesis by (simp add: flatten_tags_def truthy_def iter_def)
next
  case (Cons t ts')
  with assms(1) obtain d where "t = JDict d" by (auto simp: list_all2_Cons1)
  with Cons assms(2) names_of_objects[OF assms(1)] show ?thesis
    by (simp add: flatten_tags_def truthy_def first_item_def is_dict_def iter_def)
qed

lemma flatten_tags_strings:
  assumes "map_of ind ''tags'' = Some (JList (map JStr ns))"
  shows "flatten_tags ind = Inr (map JStr ns)"
proof (cases ns)
  case Nil
  with assms show ?thesis by (simp add: flatten_tags_def truthy_def iter_def)
next
  case (Cons n ns')
  with assms show ?thesis
    by (simp add: flatten_tags_def truthy_def first_item_def is_dict_def iter_def)
qed

lemma ind_row_flat:
  "getitems ind [rh \<leftarrow> header. rh \<noteq> ''tags''] = Inr row \<Longrightarrow>
   flatten_tags ind = Inr (map JStr ns) \<Longrightarrow>
   ind_row False header ind = Inr (row @ [JStr (str_join ''|'' ns)])"
  by (simp add: ind_row_def py_join_map_JStr)

lemma obl_row_flat:
  "getitems ind [rh \<leftarrow> header. rh \<noteq> ''tags''] = Inr row \<Longrightarrow>
   flatten_tags ind = Inr (map JStr ns) \<Longrightarrow>
   map_of ind ''tags'' = Some (JList ts) \<Longrightarrow> length ts = length ns \<Longrightarrow>
   obl_row header ind = Inr (if ns = [] then row else row @ [JStr (str_join ''|'' ns)])"
  by (cases ts) (auto simp: obl_row_def py_join_map_JStr truthy_def)

text \<open>
  C7. The tag flattening of the CSV writers gives the same cell for both representations
  of the same tags: for tags that are a list of objects with the names \<open>ns\<close> and for tags
  that are the plain list of the strings \<open>ns\<close>, ind_dict_to_csv writes the same row, ending
  in the cell \<open>"|".join(ns)\<close>, and obl_dict_to_csv writes the same row, ending in that
  cell when there is a tag at all. The representation is read off each record's own
  tags.
\<close>

theorem tag_flattening_both_representations:
  assumes "list_all2 (\<lambda>t n. \<exists>d. t = JDict d \<and> map_of d ''name'' = Some (JStr n)) ts ns"
    and "map_of ind ''tags'' = Some (JList ts)"
    and "map_of ind' ''tags'' = Some (JList (map JStr ns))"
    and "getitems ind [rh \<leftarrow> header. rh \<noteq> ''tags''] = Inr row"
    and "getitems ind' [rh \<leftarrow> header. rh \<noteq> ''tags''] = Inr row"
  shows "flatten_tags ind = Inr (map JStr ns) \<and> flatten_tags ind' = Inr (map JStr ns) \<and>
    ind_row False header ind = Inr (row @ [JStr (str_join ''|'' ns)]) \<and>
    ind_row False header ind' = Inr (row @ [JStr (str_join ''|'' ns)]) \<and>
    obl_row header ind = Inr (if ns = [] then row else row @ [JStr (str_join ''|'' ns)]) \<and>
    obl_row header ind' = Inr (if ns = [] then row else row @ [JStr (str_join ''|'' ns)])"
proof -
  note a = flatten_tags_objects[OF assms(1,2)]
  note b = flatten_tags_strings[OF assms(3)]
  from assms(1) have len: "length ts = length ns" by (rule list_all2_lengthD)
  from a b ind_row_flat[OF assms(4) a] ind_row_flat[OF assms(5) b]
    obl_row_flat[OF assms(4) a assms(2) len]
    obl_row_flat[OF assms(5) b assms(3)]
  show ?thesis by simp
qed

theorem tag_flattening_both_representations_witness:
  "ind_row False [''value'', ''tags'']
     [(''value'', JStr ''203.0.113.7''),
      (''tags'', JList [JDict [(''name'', JStr ''a'')], JDict [(''name'', JStr ''b'')]])]
   = Inr [JStr ''203.0.113.7'', JStr ''a|b''] \<and>
   ind_row False [''value'', ''tags'']
     [(''value'', JStr ''203.0.113.7''), (''tags'', JList [JStr ''a'', JStr ''b''])]
   = Inr [JStr ''203.0.113.7'', JStr ''a|b''] \<and>
   obl_row [''value'', ''tags'']
     [(''value'', JStr ''203.0.113.7''),
      (''tags'', JList [JDict [(''name'', JStr ''a'')], JDict [(''name'', JStr ''b'')]])]
   = Inr [JStr ''203.0.113.7'', JStr ''a|b''] \<and>
   obl_row [''value'', ''tags'']
     [(''value'', JStr ''203.0.113.7''), (''tags'', JList [JStr ''a'', JStr ''b''])]
   = Inr [JStr ''203.0.113.7'', JStr ''a|b'']"
proof -
  let ?ts = "[JDict [(''name'', JStr ''a'')], JDict [(''name'', JStr ''b'')]]"
  let ?ind = "[(''value'', JStr ''203.0.113.7''), (''tags'', JList ?ts)]"
  let ?ind' = "[(''value'', JStr ''203.0.113.7''), (''tags'', JList [JStr ''a'', JStr ''b''])]"
  let ?header = "[''value'', ''tags'']"
  have h1: "list_all2 (\<lambda>t n. \<exists>d. t = JDict d \<and> map_of d ''name'' = Some (JStr n)) ?ts [''a'', ''b'']"
    by simp
  have h2: "map_of ?ind ''tags'' = Some (JList ?ts)" by simp
  have h3: "map_of ?ind' ''tags'' = Some (JList (map JStr [''a'', ''b'']))" by simp
  have h4: "getitems ?ind [rh \<leftarrow> ?header. rh \<noteq> ''tags''] = Inr [JStr ''203.0.113.7'']"
    by (simp add: getitem_def)
  have h5: "getitems ?ind' [rh \<leftarrow> ?header. rh \<noteq> ''tags''] = Inr [JStr ''203.0.113.7'']"
    by (simp add: getitem_def)
  from tag_flattening_both_representations[OF h1 h2 h3 h4 h5] show ?thesis by simp
qed


lemma write_rows_eq:
  "write_rows mk inds =
     (concat (map (\<lambda>ind. case mk ind of Inr row \<Rightarrow> [row] | Inl _ \<Rightarrow> []) inds),
      concat (map (\<lambda>ind. case mk ind of Inl e \<Rightarrow> [ErrorWriting ind e] | Inr _ \<Rightarrow> []) inds))"
  by (induction inds) (auto split: sum.splits)













section \<open>Properties of the TruSTAR 1.3 script\<close>

lemma retrieve_iocs_both_flags:
  "retrieve_iocs env f t True True enclaves min_calls all_meta = Some (Inr [], [], [BothTrue])"
  by (simp add: retrieve_iocs_def)

lemma convert_times_crash:
  "convert_times env a = Crash \<longleftrightarrow>
     (\<exists>s days. last_days a = Some s \<and> s \<noteq> [] \<and> py_int s = Some days \<and>
        \<not> (\<bar>days\<bar> \<le> MAX_DAYS \<and> MIN_MS \<le> utcnow env - days * 86400000 \<and>
           utcnow env - days * 86400000 \<le> MAX_MS))"
  by (auto simp: convert_times_def split: option.splits sum.splits if_splits)

lemma convert_times_exit:
  "convert_times env a = Exit m \<Longrightarrow> m = InvalidLastDays \<or> (\<exists>s. m = InvalidArgument s)"
  by (auto simp: convert_times_def convert_time_def split: option.splits sum.splits if_splits)

text \<open>
  C9, as amended. When both only_vals and only_vt are set, no call is made to the API
  and no file is written, and the run ends in one of three ways. If the time arguments
  are read, retrieve_iocs prints that the two parameters cannot both be true and returns
  the empty list, the script prints that no IOCs matched, and the process ends in the
  normal way, with exit status 0. If a time argument cannot be read, the run ends before
  that with the line for the invalid argument, also with exit status 0. If \<open>last_days\<close>
  is an integer that takes the start of the window out of the range of dates, the
  subtraction raises before retrieve_iocs is called: nothing is printed by the script
  and the exit status is 1; this happens in no other case.
\<close>

theorem both_flags_rejected:
  "only_vals_arg a \<and> only_vt_arg a \<longrightarrow>
     (\<exists>out. main env a = Some out \<and> api_calls out = [] \<and> files out = [] \<and>
        (case convert_times env a of
           Times f t \<Rightarrow> printed_lines out = [BothTrue, NoIOCsMatched] \<and> exit_code out = 0
         | Exit m \<Rightarrow> printed_lines out = [m] \<and> exit_code out = 0 \<and>
             (m = InvalidLastDays \<or> (\<exists>s. m = InvalidArgument s))
         | Crash \<Rightarrow> printed_lines out = [] \<and> exit_code out = 1) \<and>
        (exit_code out \<noteq> 0 \<longleftrightarrow>
           (\<exists>s days. last_days a = Some s \<and> s \<noteq> [] \<and> py_int s = Some days \<and>
              \<not> (\<bar>days\<bar> \<le> MAX_DAYS \<and> MIN_MS \<le> utcnow env - days * 86400000 \<and>
                 utcnow env - days * 86400000 \<le> MAX_MS))))"
proof
  assume both: "only_vals_arg a \<and> only_vt_arg a"
  let ?crash = "\<exists>s days. last_days a = Some s \<and> s \<noteq> [] \<and> py_int s = Some days \<and>
              \<not> (\<bar>days\<bar> \<le> MAX_DAYS \<and> MIN_MS \<le> utcnow env - days * 86400000 \<and>
                 utcnow env - days * 86400000 \<le> MAX_MS)"
  show "\<exists>out. main env a = Some out \<and> api_calls out = [] \<and> files out = [] \<and>
        (case convert_times env a of
           Times f t \<Rightarrow> printed_lines out = [BothTrue, NoIOCsMatched] \<and> exit_code out = 0
         | Exit m \<Rightarrow> printed_lines out = [m] \<and> exit_code out = 0 \<and>
             (m = InvalidLastDays \<or> (\<exists>s. m = InvalidArgument s))
         | Crash \<Rightarrow> printed_lines out = [] \<and> exit_code out = 1) \<and>
        (exit_code out \<noteq> 0 \<longleftrightarrow> ?crash)"
  proof (cases "convert_times env a")
    case (Exit m)
    then have "\<not> ?crash" using convert_times_crash[of env a] by simp
    with Exit convert_times_exit[OF Exit] show ?thesis by (simp add: main_def)
  next
    case Crash
    then have "?crash" using convert_times_crash[of env a] by simp
    with Crash show ?thesis by (simp add: main_def)
  next
    case (Times f t)
    then have "\<not> ?crash" using convert_times_crash[of env a] by simp
    with Times both show ?thesis by (simp add: main_def retrieve_iocs_both_flags)
  qed
qed

theorem both_flags_rejected_witness:
  "main \<lparr>ping_ok = True, enclave_ids = [], user_enclaves = [],
         search = (\<lambda>n f t. []), metadata = (\<lambda>items. []),
         now_from = 1700000000000, now_to = 1700000000001, utcnow = 1700000000002,
         strptime = (\<lambda>s fmt. None), default_csv = ''trustar_iocs_20231114_221320.csv'',
         default_json = ''trustar_iocs_20231114_221320.json''\<rparr>
        \<lparr>outfile = None, all_fields = False, csv = True, enclaves_arg = '''',
         from_time_arg = None, types_arg = '''', last_days = Some ''7'',
         min_calls_arg = False, split_tags_arg = False, to_time_arg = None,
         only_vals_arg = True, only_vt_arg = True\<rparr>
   = Some \<lparr>printed_lines = [BothTrue, NoIOCsMatched], api_calls = [], files = [],
           exit_code = 0\<rparr>"
proof -
  let ?env = "\<lparr>ping_ok = True, enclave_ids = [], user_enclaves = [],
         search = (\<lambda>n f t. []), metadata = (\<lambda>items. []),
         now_from = 1700000000000, now_to = 1700000000001, utcnow = 1700000000002,
         strptime = (\<lambda>s fmt. None), default_csv = ''trustar_iocs_20231114_221320.csv'',
         default_json = ''trustar_iocs_20231114_221320.json''\<rparr>"
  let ?a = "\<lparr>outfile = None, all_fields = False, csv = True, enclaves_arg = '''',
         from_time_arg = None, types_arg = '''', last_days = Some ''7'',
         min_calls_arg = False, split_tags_arg = False, to_time_arg = None,
         only_vals_arg = True, only_vt_arg = True\<rparr>"
  have ct: "convert_times ?env ?a = Times (Some 1699395200002) (Some 1700000000002)"
    by (simp add: convert_times_def py_int_def unsigned_def is_digit_def is_space_def
        MAX_DAYS_def MIN_MS_def MAX_MS_def)
  have both: "only_vals_arg ?a \<and> only_vt_arg ?a" by simp
  from both_flags_rejected[of ?a ?env] both obtain out where
    "main ?env ?a = Some out" "api_calls out = []" "files out = []"
    "case convert_times ?env ?a of
           Times f t \<Rightarrow> printed_lines out = [BothTrue, NoIOCsMatched] \<and> exit_code out = 0
         | Exit m \<Rightarrow> printed_lines out = [m] \<and> exit_code out = 0 \<and>
             (m = InvalidLastDays \<or> (\<exists>s. m = InvalidArgument s))
         | Crash \<Rightarrow> printed_lines out = [] \<and> exit_code out = 1"
    by blast
  with ct show ?thesis by (cases out) simp
qed

text \<open>
  C9 as stated fails: with both flags, and nothing else wrong, the process does not end
  with a non-zero exit status; retrieve_iocs returns the empty list and the script runs
  to its end.
\<close>

theorem both_flags_exit_status_counterexample:
  "map_option exit_code
     (main \<lparr>ping_ok = True, enclave_ids = [], user_enclaves = [],
            search = (\<lambda>n f t. []), metadata = (\<lambda>items. []),
            now_from = 1700000000000, now_to = 1700000000001, utcnow = 1700000000002,
            strptime = (\<lambda>s fmt. None), default_csv = ''trustar_iocs_20231114_221320.csv'',
            default_json = ''trustar_iocs_20231114_221320.json''\<rparr>
           \<lparr>outfile = None, all_fields = False, csv = False, enclaves_arg = '''',
            from_time_arg = None, types_arg = '''', last_days = None,
            min_calls_arg = False, split_tags_arg = False, to_time_arg = None,
            only_vals_arg = True, only_vt_arg = True\<rparr>)
   = Some 0"
  by (simp add: main_def convert_times_def convert_time_def retrieve_iocs_def)

lemma queries_of_append: "queries_of (a @ b) = queries_of a @ queries_of b"
  by (simp add: queries_of_def)

lemma pages_of_append: "pages_of (a @ b) = pages_of a @ pages_of b"
  by (simp add: pages_of_def)

lemma page_loop_empty:
  "srch n from_time pg_to = [] \<Longrightarrow>
   page_loop srch meta from_time n pg_to md calls printed =
     Some (md, calls @ [SearchPage from_time pg_to []], printed)"
  by (subst page_loop.simps) simp

lemma page_loop_last:
  "srch n from_time pg_to \<noteq> [] \<Longrightarrow>
   last_seen (last (srch n from_time pg_to)) - 1 < from_time \<Longrightarrow>
   page_loop srch meta from_time n pg_to md calls printed =
     Some (md @ meta (srch n from_time pg_to),
           calls @ [SearchPage from_time pg_to (srch n from_time pg_to),
                    GetMetadata (srch n from_time pg_to)],
           (printed @ [Retrieved (length (md @ meta (srch n from_time pg_to)))]) @
             (if pg_to < last_seen (last (srch n from_time pg_to))
              then [AbortingOutOfRange (last (srch n from_time pg_to))] else []))"
  by (subst page_loop.simps) (simp add: Let_def)

lemma page_loop_next:
  "srch n from_time pg_to \<noteq> [] \<Longrightarrow>
   \<not> last_seen (last (srch n from_time pg_to)) - 1 < from_time \<Longrightarrow>
   page_loop srch meta from_time n pg_to md calls printed =
     page_loop srch meta from_time (n + 1) (last_seen (last (srch n from_time pg_to)) - 1)
       (md @ meta (srch n from_time pg_to))
       (calls @ [SearchPage from_time pg_to (srch n from_time pg_to),
                 GetMetadata (srch n from_time pg_to)])
       ((printed @ [Retrieved (length (md @ meta (srch n from_time pg_to)))]) @
          (if pg_to < last_seen (last (srch n from_time pg_to))
           then [AbortingOutOfRange (last (srch n from_time pg_to))] else []))"
  by (subst page_loop.simps) (simp add: Let_def)

lemma sorted_wrt_last_le:
  "sorted_wrt (\<lambda>a b. last_seen b \<le> last_seen a) xs \<Longrightarrow> x \<in> set xs \<Longrightarrow>
   last_seen (last xs) \<le> last_seen x"
proof (induction xs)
  case Nil
  then show ?case by simp
next
  case (Cons a xs)
  then show ?case by (cases "xs = []") auto
qed

lemma last_is_Min:
  assumes "items \<noteq> []" and "sorted_wrt (\<lambda>a b. last_seen b \<le> last_seen a) items"
  shows "last_seen (last items) = Min (last_seen ` set items)"
proof -
  have "Min (last_seen ` set items) = last_seen (last items)"
  proof (rule Min_eqI)
    show "finite (last_seen ` set items)" by simp
    show "\<And>y. y \<in> last_seen ` set items \<Longrightarrow> last_seen (last items) \<le> y"
      using sorted_wrt_last_le[OF assms(2)] by auto
    show "last_seen (last items) \<in> last_seen ` set items"
      using assms(1) by simp
  qed
  then show ?thesis by simp
qed

text \<open>
  The loop returns, and its queries form the cursor chain, for every source that answers a
  query with a page ordered by \<open>last_seen\<close>, latest first, whose records are not later
  than the upper bound asked: each turn lowers \<open>pg_to\<close> by one at least, and the loop
  stops when \<open>pg_to\<close> is below \<open>from_time\<close>.
\<close>

lemma page_loop_returns:
  assumes ordered: "\<forall>n t. sorted_wrt (\<lambda>a b. last_seen b \<le> last_seen a) (srch n from_time t)"
    and within: "\<forall>n t. \<forall>r \<in> set (srch n from_time t). last_seen r \<le> t"
  shows "\<exists>md' new printed'.
      page_loop srch meta from_time n pg_to md calls printed = Some (md', calls @ new, printed') \<and>
      cursor_chain srch from_time n pg_to (queries_of new) \<and>
      md' = md @ concat (map meta [p \<leftarrow> pages_of new. p \<noteq> []])"
proof (induction "nat (pg_to + 1 - from_time)" arbitrary: n pg_to md calls printed
    rule: less_induct)
  case less
  let ?items = "srch n from_time pg_to"
  have sorted: "sorted_wrt (\<lambda>a b. last_seen b \<le> last_seen a) ?items"
    using ordered by blast
  show ?case
  proof (cases "?items = []")
    case True
    have "page_loop srch meta from_time n pg_to md calls printed
        = Some (md, calls @ [SearchPage from_time pg_to []], printed)"
      by (rule page_loop_empty[where srch=srch and n=n and from_time=from_time and pg_to=pg_to, OF True])
    moreover have "cursor_chain srch from_time n pg_to (queries_of [SearchPage from_time pg_to []])"
      using True by (simp add: queries_of_def)
    moreover have "md = md @ concat (map meta [p \<leftarrow> pages_of [SearchPage from_time pg_to []]. p \<noteq> []])"
      by (simp add: pages_of_def)
    ultimately show ?thesis by blast
  next
    case False
    let ?new = "[SearchPage from_time pg_to ?items, GetMetadata ?items]"
    let ?pr = "(printed @ [Retrieved (length (md @ meta ?items))]) @
          (if pg_to < last_seen (last ?items) then [AbortingOutOfRange (last ?items)] else [])"
    have m: "Min (last_seen ` set ?items) = last_seen (last ?items)"
      using last_is_Min[OF False sorted] by simp
    have "last ?items \<in> set ?items"
      using False by simp
    with within have le: "last_seen (last ?items) \<le> pg_to"
      by blast
    show ?thesis
    proof (cases "last_seen (last ?items) - 1 < from_time")
      case True
      have "page_loop srch meta from_time n pg_to md calls printed
          = Some (md @ meta ?items, calls @ ?new, ?pr)"
        by (rule page_loop_last[where srch=srch and n=n and from_time=from_time and pg_to=pg_to, OF False True])
      moreover have "cursor_chain srch from_time n pg_to (queries_of ?new)"
        using False True by (simp add: queries_of_def m)
      moreover have "md @ meta ?items = md @ concat (map meta [p \<leftarrow> pages_of ?new. p \<noteq> []])"
        using False by (simp add: pages_of_def)
      ultimately show ?thesis by blast
    next
      case ge: False
      have "nat (last_seen (last ?items) - 1 + 1 - from_time) < nat (pg_to + 1 - from_time)"
        using le ge by linarith
      from less[OF this, of "n + 1" "md @ meta ?items" "calls @ ?new" ?pr]
      obtain md' new' printed' where
        run: "page_loop srch meta from_time (n + 1) (last_seen (last ?items) - 1)
                (md @ meta ?items) (calls @ ?new) ?pr = Some (md', (calls @ ?new) @ new', printed')"
        and chain: "cursor_chain srch from_time (n + 1) (last_seen (last ?items) - 1) (queries_of new')"
        and mds: "md' = (md @ meta ?items) @ concat (map meta [p \<leftarrow> pages_of new'. p \<noteq> []])"
        by blast
      have "page_loop srch meta from_time n pg_to md calls printed
          = Some (md', calls @ (?new @ new'), printed')"
        using page_loop_next[where srch=srch and n=n and from_time=from_time and pg_to=pg_to, OF False ge, of meta md calls printed] run by simp
      moreover have "cursor_chain srch from_time n pg_to (queries_of (?new @ new'))"
        using False ge chain by (simp add: queries_of_def m)
      moreover have "md' = md @ concat (map meta [p \<leftarrow> pages_of (?new @ new'). p \<noteq> []])"
        using False mds by (simp add: pages_of_def)
      ultimately show ?thesis by blast
    qed
  qed
qed

lemma retrieve_iocs_unfold:
  assumes "\<not> (only_vals \<and> only_vt)" and "min_calls \<or> ping_ok env"
  shows "retrieve_iocs env (Some from_time) (Some to_time) only_vals only_vt enclaves min_calls
           all_meta
     = (case page_loop (search env) (metadata env) from_time 0 to_time []
               (if min_calls then [] else [Ping, GetUserEnclaves])
               ((if min_calls then []
                 else RetrievingFromEnclaves
                      # enclave_lines (rev (user_enclaves env))
                          (if enclaves = []
                           then (if enclave_ids env = []
                                 then [''59cd8570-5dce-4e5b-b09c-9807530a7086'']
                                 else enclave_ids env)
                           else enclaves))
                @ [RetrievingBetween from_time to_time]) of
          None \<Rightarrow> None
        | Some (all_metadata, calls, printed) \<Rightarrow>
            (case (if only_vt then shape only_vt_fields all_metadata
                   else if only_vals then shape only_vals_fields all_metadata
                   else if all_meta then Inr all_metadata
                   else shape common_fields all_metadata) of
               Inl e \<Rightarrow> Some (Inl e, calls, printed)
             | Inr out \<Rightarrow> Some (Inr out, calls, printed @ [EmptyLine])))"
  using assms by (cases min_calls) (auto simp: retrieve_iocs_def Let_def)

lemma queries_of_first_calls:
  "queries_of ((if min_calls then [] else [Ping, GetUserEnclaves]) @ new) = queries_of new"
  by (simp add: queries_of_def)

lemma pages_of_first_calls:
  "pages_of ((if min_calls then [] else [Ping, GetUserEnclaves]) @ new) = pages_of new"
  by (simp add: pages_of_def)

text \<open>
  C1. In retrieve_iocs, for every source that answers a query with a page of records
  within the bound asked, ordered by \<open>last_seen\<close>, latest first (as the source orders
  them): the loop returns, and its page queries form the cursor chain. The first query is
  bounded by \<open>from_time\<close> and \<open>pg_to = to_time\<close>; every query gets the source's page for its
  bounds; an empty page ends the loop; after a page with records, which are appended,
  \<open>pg_to\<close> becomes the minimum \<open>last_seen\<close> of the page minus one, and the loop ends when
  that is below \<open>from_time\<close>. This holds of the loop started in any state and of
  retrieve_iocs itself, whenever it gets as far as the loop; with \<open>all_meta\<close> and neither
  of the two flags, what it returns is the metadata of the pages, in order.
\<close>

theorem pagination_cursor:
  assumes ordered: "\<forall>n t. sorted_wrt (\<lambda>a b. last_seen b \<le> last_seen a) (search env n from_time t)"
    and within: "\<forall>n t. \<forall>r \<in> set (search env n from_time t). last_seen r \<le> t"
  shows "(\<exists>md' new printed'.
      page_loop (search env) (metadata env) from_time n pg_to md calls printed
        = Some (md', calls @ new, printed') \<and>
      cursor_chain (search env) from_time n pg_to (queries_of new) \<and>
      md' = md @ concat (map (metadata env) [p \<leftarrow> pages_of new. p \<noteq> []])) \<and>
    (\<not> (only_vals \<and> only_vt) \<and> (min_calls \<or> ping_ok env) \<longrightarrow>
      (\<exists>r rcalls rprinted.
         retrieve_iocs env (Some from_time) (Some to_time) only_vals only_vt enclaves min_calls
           all_meta = Some (r, rcalls, rprinted) \<and>
         cursor_chain (search env) from_time 0 to_time (queries_of rcalls) \<and>
         (all_meta \<and> \<not> only_vals \<and> \<not> only_vt \<longrightarrow>
            r = Inr (concat (map (metadata env) [p \<leftarrow> pages_of rcalls. p \<noteq> []])))))"
proof (intro conjI impI)
  show "\<exists>md' new printed'.
      page_loop (search env) (metadata env) from_time n pg_to md calls printed
        = Some (md', calls @ new, printed') \<and>
      cursor_chain (search env) from_time n pg_to (queries_of new) \<and>
      md' = md @ concat (map (metadata env) [p \<leftarrow> pages_of new. p \<noteq> []])"
    by (rule page_loop_returns[where srch="search env" and from_time=from_time, OF ordered within])
  assume guard: "\<not> (only_vals \<and> only_vt) \<and> (min_calls \<or> ping_ok env)"
  let ?calls0 = "if min_calls then [] else [Ping, GetUserEnclaves]"
  let ?printed0 = "(if min_calls then []
                 else RetrievingFromEnclaves
                      # enclave_lines (rev (user_enclaves env))
                          (if enclaves = []
                           then (if enclave_ids env = []
                                 then [''59cd8570-5dce-4e5b-b09c-9807530a7086'']
                                 else enclave_ids env)
                           else enclaves))
                @ [RetrievingBetween from_time to_time]"
  from page_loop_returns[where srch="search env" and from_time=from_time and meta="metadata env"
      and n=0 and pg_to=to_time and md="[]" and calls="?calls0" and printed="?printed0", OF ordered within]
  obtain md' new printed' where
    run: "page_loop (search env) (metadata env) from_time 0 to_time [] ?calls0 ?printed0
        = Some (md', ?calls0 @ new, printed')"
    and chain: "cursor_chain (search env) from_time 0 to_time (queries_of new)"
    and mds: "md' = concat (map (metadata env) [p \<leftarrow> pages_of new. p \<noteq> []])"
    by auto
  from guard have g1: "\<not> (only_vals \<and> only_vt)" and g2: "min_calls \<or> ping_ok env"
    by simp_all
  note unf = retrieve_iocs_unfold[where from_time=from_time and to_time=to_time
      and enclaves=enclaves and all_meta=all_meta, OF g1 g2]
  let ?sh = "if only_vt then shape only_vt_fields md'
             else if only_vals then shape only_vals_fields md'
             else if all_meta then Inr md'
             else shape common_fields md'"
  have am: "all_meta \<and> \<not> only_vals \<and> \<not> only_vt \<Longrightarrow> ?sh = Inr md'"
    by simp
  have "\<exists>r rprinted.
      retrieve_iocs env (Some from_time) (Some to_time) only_vals only_vt enclaves min_calls
        all_meta = Some (r, ?calls0 @ new, rprinted) \<and>
      (all_meta \<and> \<not> only_vals \<and> \<not> only_vt \<longrightarrow> r = Inr md')"
  proof (cases ?sh)
    case (Inl e)
    have "retrieve_iocs env (Some from_time) (Some to_time) only_vals only_vt enclaves min_calls
        all_meta = Some (Inl e, ?calls0 @ new, printed')"
      by (simp only: unf run option.case prod.case Inl sum.case)
    moreover have "all_meta \<and> \<not> only_vals \<and> \<not> only_vt \<longrightarrow> Inl e = Inr md'"
    proof
      assume a: "all_meta \<and> \<not> only_vals \<and> \<not> only_vt"
      show "Inl e = Inr md'"
        by (rule trans[OF Inl[symmetric] am[OF a]])
    qed
    ultimately show ?thesis by blast
  next
    case (Inr out)
    have "retrieve_iocs env (Some from_time) (Some to_time) only_vals only_vt enclaves min_calls
        all_meta = Some (Inr out, ?calls0 @ new, printed' @ [EmptyLine])"
      by (simp only: unf run option.case prod.case Inr sum.case)
    moreover have "all_meta \<and> \<not> only_vals \<and> \<not> only_vt \<longrightarrow> (Inr out :: error + pydict list) = Inr md'"
    proof
      assume a: "all_meta \<and> \<not> only_vals \<and> \<not> only_vt"
      show "(Inr out :: error + pydict list) = Inr md'"
        by (rule trans[OF Inr[symmetric] am[OF a]])
    qed
    ultimately show ?thesis by blast
  qed
  then obtain r rprinted where
    ret: "retrieve_iocs env (Some from_time) (Some to_time) only_vals only_vt enclaves min_calls
        all_meta = Some (r, ?calls0 @ new, rprinted)"
    and rm: "all_meta \<and> \<not> only_vals \<and> \<not> only_vt \<longrightarrow> r = Inr md'"
    by blast
  have cc: "cursor_chain (search env) from_time 0 to_time (queries_of (?calls0 @ new))"
    using chain by (simp only: queries_of_first_calls)
  have rm': "all_meta \<and> \<not> only_vals \<and> \<not> only_vt \<longrightarrow>
      r = Inr (concat (map (metadata env) [p \<leftarrow> pages_of (?calls0 @ new). p \<noteq> []]))"
    using rm by (simp only: pages_of_first_calls mds[symmetric])
  from ret cc rm'
  show "\<exists>r rcalls rprinted.
         retrieve_iocs env (Some from_time) (Some to_time) only_vals only_vt enclaves min_calls
           all_meta = Some (r, rcalls, rprinted) \<and>
         cursor_chain (search env) from_time 0 to_time (queries_of rcalls) \<and>
         (all_meta \<and> \<not> only_vals \<and> \<not> only_vt \<longrightarrow>
            r = Inr (concat (map (metadata env) [p \<leftarrow> pages_of rcalls. p \<noteq> []])))"
    by blast
qed
theorem pagination_cursor_witness:
  "page_loop
     (synthetic_search [\<lparr>item_value = ''a'', last_seen = 9\<rparr>,
                        \<lparr>item_value = ''b'', last_seen = 5\<rparr>] 1)
     (map (\<lambda>i. [(''value'', JStr (item_value i))])) 0 0 10 [] [] []
   = Some ([[(''value'', JStr ''a'')], [(''value'', JStr ''b'')]],
           [SearchPage 0 10 [\<lparr>item_value = ''a'', last_seen = 9\<rparr>],
            GetMetadata [\<lparr>item_value = ''a'', last_seen = 9\<rparr>],
            SearchPage 0 8 [\<lparr>item_value = ''b'', last_seen = 5\<rparr>],
            GetMetadata [\<lparr>item_value = ''b'', last_seen = 5\<rparr>],
            SearchPage 0 4 []],
           [Retrieved 1, Retrieved 2]) \<and>
   cursor_chain
     (synthetic_search [\<lparr>item_value = ''a'', last_seen = 9\<rparr>,
                        \<lparr>item_value = ''b'', last_seen = 5\<rparr>] 1)
     0 0 10
     [(0, 10, [\<lparr>item_value = ''a'', last_seen = 9\<rparr>]),
      (0, 8, [\<lparr>item_value = ''b'', last_seen = 5\<rparr>]),
      (0, 4, [])] \<and>
   retrieve_iocs
     \<lparr>ping_ok = False, enclave_ids = [], user_enclaves = [],
      search = synthetic_search [\<lparr>item_value = ''a'', last_seen = 9\<rparr>,
                                 \<lparr>item_value = ''b'', last_seen = 5\<rparr>] 1,
      metadata = map (\<lambda>i. [(''value'', JStr (item_value i))]),
      now_from = 0, now_to = 0, utcnow = 0,
      strptime = (\<lambda>s fmt. None), default_csv = ''a.csv'', default_json = ''a.json''\<rparr>
     (Some 0) (Some 10) False False [] True True
   = Some (Inr [[(''value'', JStr ''a'')], [(''value'', JStr ''b'')]],
           [SearchPage 0 10 [\<lparr>item_value = ''a'', last_seen = 9\<rparr>],
            GetMetadata [\<lparr>item_value = ''a'', last_seen = 9\<rparr>],
            SearchPage 0 8 [\<lparr>item_value = ''b'', last_seen = 5\<rparr>],
            GetMetadata [\<lparr>item_value = ''b'', last_seen = 5\<rparr>],
            SearchPage 0 4 []],
           [RetrievingBetween 0 10, Retrieved 1, Retrieved 2, EmptyLine])"
proof -
  let ?a = "\<lparr>item_value = ''a'', last_seen = 9\<rparr>"
  let ?b = "\<lparr>item_value = ''b'', last_seen = 5\<rparr>"
  let ?srch = "synthetic_search [?a, ?b] 1"
  let ?meta = "map (\<lambda>i. [(''value'', JStr (item_value i))])"
  let ?md = "[[(''value'', JStr ''a'')], [(''value'', JStr ''b'')]]"
  let ?calls = "[SearchPage 0 10 [?a], GetMetadata [?a], SearchPage 0 8 [?b], GetMetadata [?b],
      SearchPage 0 4 []]"
  let ?env = "\<lparr>ping_ok = False, enclave_ids = [], user_enclaves = [],
         search = ?srch, metadata = ?meta,
         now_from = 0, now_to = 0, utcnow = 0,
         strptime = (\<lambda>s fmt. None), default_csv = ''a.csv'', default_json = ''a.json''\<rparr>"
  have page: "\<And>n f t. ?srch n f t
      = (if f \<le> 9 \<and> 9 \<le> t then [?a] else if f \<le> 5 \<and> 5 \<le> t then [?b] else [])"
    by (simp add: synthetic_search_def)
  note pg = page[unfolded One_nat_def]
  have run: "page_loop ?srch ?meta 0 0 10 [] [] [] = Some (?md, ?calls, [Retrieved 1, Retrieved 2])"
    by (simp add: page_loop_next page_loop_empty pg)
  have ret: "retrieve_iocs ?env (Some 0) (Some 10) False False [] True True
      = Some (Inr ?md, ?calls, [RetrievingBetween 0 10, Retrieved 1, Retrieved 2, EmptyLine])"
    by (simp add: retrieve_iocs_def page_loop_next page_loop_empty pg)
  have ordered: "\<forall>n t. sorted_wrt (\<lambda>a b. last_seen b \<le> last_seen a) (search ?env n 0 t)"
    by (simp add: pg)
  have within: "\<forall>n t. \<forall>r \<in> set (search ?env n 0 t). last_seen r \<le> t"
    by (simp add: pg)
  note inst = pagination_cursor[where env="?env" and from_time=0 and n=0 and pg_to=10
      and md="[]" and calls="[]" and printed="[]", OF ordered within]
  from inst have "\<exists>md' new printed'.
      page_loop (search ?env) (metadata ?env) 0 0 10 [] [] [] = Some (md', [] @ new, printed') \<and>
      cursor_chain (search ?env) 0 0 10 (queries_of new) \<and>
      md' = [] @ concat (map (metadata ?env) [p \<leftarrow> pages_of new. p \<noteq> []])"
    by (rule conjunct1)
  then obtain md' new printed' where
    a: "page_loop (search ?env) (metadata ?env) 0 0 10 [] [] [] = Some (md', [] @ new, printed')"
    and b: "cursor_chain (search ?env) 0 0 10 (queries_of new)"
    by (elim exE conjE)
  from a have a': "page_loop ?srch ?meta 0 0 10 [] [] [] = Some (md', new, printed')"
    by (simp only: ts_env.simps append_Nil)
  from a' run have "Some (md', new, printed') = Some (?md, ?calls, [Retrieved 1, Retrieved 2])"
    by (rule trans[OF sym])
  then have n: "new = ?calls"
    by (simp only: option.inject prod.inject)
  from b have b': "cursor_chain ?srch 0 0 10 (queries_of new)"
    by (simp only: ts_env.simps)
  have q: "queries_of ?calls = [(0, 10, [?a]), (0, 8, [?b]), (0, 4, [])]"
    by (simp add: queries_of_def)
  from b' have c: "cursor_chain ?srch 0 0 10 [(0, 10, [?a]), (0, 8, [?b]), (0, 4, [])]"
    by (simp only: n q)
  show ?thesis
    by (rule conjI[OF run conjI[OF c ret]])
qed

end
